theory Spec2Isabelle
  imports Complex_Main "HOL-Library.Log_Nat" "HOL-Library.Word"
begin

unbundle bit_operations_syntax

section \<open>The float64 arithmetic used by border-shimmer\<close>

text \<open>
  border-shimmer computes the interpolation parameter, the channel values, the number of
  steps and the frame delay in Go's \<^verbatim>\<open>float64\<close> (IEEE 754 binary64). Real arithmetic is
  not a model of it: \<^verbatim>\<open>c*(1-t) + c*t\<close> is \<open>c\<close> over the reals, and is not always \<open>c\<close> in
  binary64. A finite binary64 value is modelled as the rational it denotes (the sign of
  zero is not kept; nothing here reads it), and every operation is the exact rational
  result rounded to the nearest binary64 value, ties to the even significand, one
  rounding per operation (no fused multiply-add). An operation whose binary64 result is
  not finite (an infinity or a NaN) gives \<open>None\<close>.
\<close>

text \<open>\<open>ilog2 x\<close> is the binary exponent of a positive rational: the \<open>e\<close> with \<open>2^e \<le> x < 2^(e+1)\<close>.\<close>

definition ilog2 :: "rat \<Rightarrow> int" where
  "ilog2 x = (case quotient_of x of (p, q) \<Rightarrow>
     let d = bitlen p - bitlen q in if 2 powi d \<le> x then d else d - 1)"

definition round_half_even :: "rat \<Rightarrow> int" where
  "round_half_even y = (let f = \<lfloor>y\<rfloor>; r = y - of_int f in
     if r < 1 / 2 then f else if 1 / 2 < r then f + 1 else if even f then f else f + 1)"

text \<open>
  The spacing of binary64 values around \<open>x\<close> is \<open>2 ^ quantum x\<close>: 53 significant bits,
  and never finer than the subnormal spacing \<open>2^-1074\<close>.
\<close>

definition quantum :: "rat \<Rightarrow> int" where
  "quantum x = max (ilog2 \<bar>x\<bar> - 52) (- 1074)"

text \<open>
  The finite binary64 values lie below \<open>2^1024\<close> in magnitude: the integer part has at
  most 1024 bits.
\<close>

definition finite64 :: "rat \<Rightarrow> bool" where
  "finite64 y = (bitlen \<lfloor>\<bar>y\<bar>\<rfloor> \<le> 1024)"

definition fl64 :: "rat \<Rightarrow> rat option" where
  "fl64 x = (if x = 0 then Some 0 else
     let e = quantum x;
         y = sgn x * of_int (round_half_even (\<bar>x\<bar> / 2 powi e)) * 2 powi e
     in if finite64 y then Some y else None)"

definition fadd :: "rat \<Rightarrow> rat \<Rightarrow> rat option" where
  "fadd a b = fl64 (a + b)"

definition fsub :: "rat \<Rightarrow> rat \<Rightarrow> rat option" where
  "fsub a b = fl64 (a - b)"

definition fmul :: "rat \<Rightarrow> rat \<Rightarrow> rat option" where
  "fmul a b = fl64 (a * b)"

text \<open>A division by zero gives an infinity or a NaN.\<close>

definition fdiv :: "rat \<Rightarrow> rat \<Rightarrow> rat option" where
  "fdiv a b = (if b = 0 then None else fl64 (a / b))"

text \<open>\<^verbatim>\<open>float64(n)\<close> for an integer \<open>n\<close>.\<close>

definition float64_of_int :: "int \<Rightarrow> rat option" where
  "float64_of_int n = fl64 (of_int n)"

text \<open>\<^verbatim>\<open>float64(b)\<close> for a \<^verbatim>\<open>uint8\<close>: every value below 256 is a binary64 value.\<close>

definition float64_of_uint8 :: "8 word \<Rightarrow> rat" where
  "float64_of_uint8 b = of_nat (unat b)"

text \<open>
  Go converts a float to an integer type by dropping the fraction. Where the integer type
  cannot hold the value the Go specification leaves the result to the implementation:
  that is \<open>None\<close> here.
\<close>

definition truncate_toward_zero :: "rat \<Rightarrow> int" where
  "truncate_toward_zero x = (if 0 \<le> x then \<lfloor>x\<rfloor> else \<lceil>x\<rceil>)"

definition uint8_of_float64 :: "rat \<Rightarrow> 8 word option" where
  "uint8_of_float64 x = (let n = truncate_toward_zero x in
     if 0 \<le> n \<and> n \<le> 255 then Some (word_of_int n) else None)"

definition int_of_float64 :: "rat \<Rightarrow> int option" where
  "int_of_float64 x = (let n = truncate_toward_zero x in
     if - (2 ^ 63) \<le> n \<and> n < 2 ^ 63 then Some n else None)"

section \<open>The colour model\<close>

text \<open>\<^verbatim>\<open>color.RGBA\<close> of the Go standard library: four \<^verbatim>\<open>uint8\<close> channels.\<close>

record color =
  R :: "8 word"
  G :: "8 word"
  B :: "8 word"
  A :: "8 word"

subsection \<open>parseColors\<close>

text \<open>\<^verbatim>\<open>strings.TrimPrefix(c, "#")\<close>: one leading \<open>#\<close> is removed.\<close>

definition TrimPrefix :: "string \<Rightarrow> string \<Rightarrow> string" where
  "TrimPrefix s p = (if take (length p) s = p then drop (length p) s else s)"

text \<open>
  \<^verbatim>\<open>fmt.Sscanf(c, "%08X", &val)\<close> with \<^verbatim>\<open>val\<close> a \<^verbatim>\<open>uint32\<close> is code of the Go standard
  library (package \<^verbatim>\<open>fmt\<close>, file scan.go), written out here as the library runs it on
  this format.
  The \<open>08\<close> of the verb is a width of 8: at most eight runes are read for the number.
  The scanner first skips leading white space (a newline is an error in \<^verbatim>\<open>Sscanf\<close>),
  then needs one hexadecimal digit (\<^verbatim>\<open>"expected integer"\<close>, or unexpected end of input),
  then reads hexadecimal digits while they last, and hands them to \<^verbatim>\<open>strconv.ParseUint\<close>
  in base 16 (at most eight digits, so the value fits the \<^verbatim>\<open>uint32\<close>). It does not look at
  what follows the digits: input left over is no error.
\<close>

definition hexadecimalDigits :: string where
  "hexadecimalDigits = ''0123456789aAbBcCdDeEfF''"

definition isHexDigit :: "char \<Rightarrow> bool" where
  "isHexDigit c = (c \<in> set hexadecimalDigits)"

definition digitVal :: "char \<Rightarrow> int" where
  "digitVal c = (let n = of_char c in
     if 48 \<le> n \<and> n \<le> 57 then n - 48
     else if 97 \<le> n \<and> n \<le> 102 then n - 87
     else n - 55)"

definition ParseUint16 :: "string \<Rightarrow> int" where
  "ParseUint16 tok = foldl (\<lambda>acc c. acc * 16 + digitVal c) 0 tok"

text \<open>
  The white-space runes of package \<^verbatim>\<open>fmt\<close> other than newline, in UTF-8:
  U+0009, U+000B to U+000D, U+0020, U+0085, U+00A0, U+1680, U+2000 to U+200A,
  U+2028, U+2029, U+202F, U+205F and U+3000. \<open>spaceWidth s\<close> is the number of bytes of
  such a rune at the head of \<open>s\<close>, and 0 when there is none.
\<close>

definition spaceWidth :: "string \<Rightarrow> nat" where
  "spaceWidth s = (case map of_char s of
       [] \<Rightarrow> 0
     | (b0 :: nat) # bs \<Rightarrow>
         if b0 = 0x09 \<or> b0 = 0x0B \<or> b0 = 0x0C \<or> b0 = 0x0D \<or> b0 = 0x20 then 1
         else (case bs of
             [] \<Rightarrow> 0
           | b1 # bs' \<Rightarrow>
               if b0 = 0xC2 \<and> (b1 = 0x85 \<or> b1 = 0xA0) then 2
               else (case bs' of
                   [] \<Rightarrow> 0
                 | b2 # _ \<Rightarrow>
                     if b0 = 0xE1 \<and> b1 = 0x9A \<and> b2 = 0x80 then 3
                     else if b0 = 0xE2 \<and> b1 = 0x80
                          \<and> ((0x80 \<le> b2 \<and> b2 \<le> 0x8A) \<or> b2 = 0xA8 \<or> b2 = 0xA9 \<or> b2 = 0xAF) then 3
                     else if b0 = 0xE2 \<and> b1 = 0x81 \<and> b2 = 0x9F then 3
                     else if b0 = 0xE3 \<and> b1 = 0x80 \<and> b2 = 0x80 then 3
                     else 0)))"

function SkipSpace :: "string \<Rightarrow> string option" where
  "SkipSpace s =
     (if s = [] then Some []
      else if hd s = CHR 0x0A then None
      else if spaceWidth s = 0 then Some s
      else SkipSpace (drop (spaceWidth s) s))"
  by pat_completeness auto
termination
  by (relation "measure length") auto

definition Sscanf_08X :: "string \<Rightarrow> 32 word option" where
  "Sscanf_08X s = (case SkipSpace s of
       None \<Rightarrow> None
     | Some r \<Rightarrow>
         let tok = takeWhile isHexDigit (take 8 r)
         in if tok = [] then None else Some (word_of_int (ParseUint16 tok)))"

datatype parse_error = InvalidFormat string | InvalidValue string

text \<open>The body of the loop of \<^verbatim>\<open>parseColors\<close>, for one colour string.\<close>

definition parseColor :: "string \<Rightarrow> parse_error + color" where
  "parseColor c0 = (let c = TrimPrefix c0 ''#'' in
     if length c \<noteq> 8 then Inl (InvalidFormat c)
     else (case Sscanf_08X c of
         None \<Rightarrow> Inl (InvalidValue c)
       | Some val \<Rightarrow>
           Inr \<lparr>R = ucast (drop_bit 24 val),
                G = ucast (drop_bit 16 val AND 0xFF),
                B = ucast (drop_bit 8 val AND 0xFF),
                A = ucast (val AND 0xFF)\<rparr>))"

text \<open>The loop returns at the first string that fails.\<close>

fun parseColors :: "string list \<Rightarrow> parse_error + color list" where
  "parseColors [] = Inr []"
| "parseColors (c # cs) =
     (case parseColor c of
        Inl e \<Rightarrow> Inl e
      | Inr x \<Rightarrow> (case parseColors cs of Inl e \<Rightarrow> Inl e | Inr xs \<Rightarrow> Inr (x # xs)))"

subsection \<open>interpolateColor\<close>

text \<open>
  One channel: \<^verbatim>\<open>uint8(float64(a)*(1-t) + float64(b)*t)\<close>, in the order Go evaluates it.
\<close>

definition interpolateChannel :: "8 word \<Rightarrow> 8 word \<Rightarrow> rat \<Rightarrow> 8 word option" where
  "interpolateChannel a b t =
     (case fsub 1 t of None \<Rightarrow> None | Some u \<Rightarrow>
      (case fmul (float64_of_uint8 a) u of None \<Rightarrow> None | Some x \<Rightarrow>
       (case fmul (float64_of_uint8 b) t of None \<Rightarrow> None | Some y \<Rightarrow>
        (case fadd x y of None \<Rightarrow> None | Some s \<Rightarrow> uint8_of_float64 s))))"

definition interpolateColor :: "color \<Rightarrow> color \<Rightarrow> rat \<Rightarrow> color option" where
  "interpolateColor c1 c2 t =
     (case (interpolateChannel (R c1) (R c2) t, interpolateChannel (G c1) (G c2) t,
            interpolateChannel (B c1) (B c2) t, interpolateChannel (A c1) (A c2) t) of
        (Some r, Some g, Some b, Some a) \<Rightarrow> Some \<lparr>R = r, G = g, B = b, A = a\<rparr>
      | _ \<Rightarrow> None)"

subsection \<open>colorToHex\<close>

definition hexUpper :: "nat \<Rightarrow> char" where
  "hexUpper n = ''0123456789ABCDEF'' ! n"

text \<open>\<^verbatim>\<open>%02X\<close> of a \<^verbatim>\<open>uint8\<close>.\<close>

definition fmt02X :: "8 word \<Rightarrow> string" where
  "fmt02X b = [hexUpper (unat b div 16), hexUpper (unat b mod 16)]"

definition colorToHex :: "color \<Rightarrow> string" where
  "colorToHex c = ''0x'' @ fmt02X (A c) @ fmt02X (R c) @ fmt02X (G c) @ fmt02X (B c)"

section \<open>Start-up\<close>

text \<open>
  The configuration as \<^verbatim>\<open>main\<close> holds it once the defaults, the configuration file and
  the command-line flags are merged; \<^verbatim>\<open>Secs\<close>, \<^verbatim>\<open>FPS\<close> and \<^verbatim>\<open>Width\<close> are finite
  \<^verbatim>\<open>float64\<close> values.
\<close>

record BorderConfig =
  Colors :: "string list"
  Secs :: rat
  FPS :: rat
  Width :: rat
  Glow :: bool

record Config =
  Active :: BorderConfig
  Inactive :: BorderConfig

datatype startup_error =
    ActiveColorError parse_error
  | InactiveColorError parse_error
  | TrackLengthMismatch

text \<open>
  The inactive track: parsed when inactive colours are configured, and otherwise
  \<^verbatim>\<open>append(colors[offset:], colors[:offset]...)\<close> with \<^verbatim>\<open>offset := len(colors) / 2\<close>.
  The appended elements lie behind \<^verbatim>\<open>colors[offset:]\<close>, so \<^verbatim>\<open>colors\<close> itself is not
  written whether or not \<^verbatim>\<open>append\<close> reallocates.
\<close>

definition deriveInactive :: "Config \<Rightarrow> color list \<Rightarrow> parse_error + color list" where
  "deriveInactive cfg cs =
     (if 0 < length (Colors (Inactive cfg)) then parseColors (Colors (Inactive cfg))
      else let offset = length cs div 2 in Inr (drop offset cs @ take offset cs))"

text \<open>
  What the loop runs on. \<^verbatim>\<open>stepsPerTransition\<close> and \<^verbatim>\<open>delay\<close> (in nanoseconds, a
  \<^verbatim>\<open>time.Duration\<close>) are conversions of a float to a 64-bit integer, \<open>None\<close> where Go
  leaves the converted value to the implementation.
\<close>

record animation =
  colors :: "color list"
  inactiveColors :: "color list"
  stepsPerTransition :: "int option"
  delay :: "int option"
  activeGlow :: bool
  inactiveGlow :: bool
  width :: rat

text \<open>
  \<^verbatim>\<open>stepsPerTransition := int(cfg.Active.Secs * cfg.Active.FPS)\<close> and
  \<^verbatim>\<open>delay := time.Duration(1.0 / cfg.Active.FPS * float64(time.Second))\<close>, where
  \<^verbatim>\<open>time.Second\<close> is \<open>10^9\<close> nanoseconds. Go's \<^verbatim>\<open>int\<close> is taken with 64 bits, as
  \<^verbatim>\<open>time.Duration\<close> has.
\<close>

definition stepsPerTransition_of :: "Config \<Rightarrow> int option" where
  "stepsPerTransition_of cfg =
     (case fmul (Secs (Active cfg)) (FPS (Active cfg)) of
        None \<Rightarrow> None
      | Some p \<Rightarrow> int_of_float64 p)"

definition delay_of :: "Config \<Rightarrow> int option" where
  "delay_of cfg =
     (case fdiv 1 (FPS (Active cfg)) of
        None \<Rightarrow> None
      | Some q \<Rightarrow> (case fmul q 1000000000 of
          None \<Rightarrow> None
        | Some ns \<Rightarrow> int_of_float64 ns))"

definition startup :: "Config \<Rightarrow> startup_error + animation" where
  "startup cfg =
     (case parseColors (Colors (Active cfg)) of
        Inl e \<Rightarrow> Inl (ActiveColorError e)
      | Inr cs \<Rightarrow>
          (case deriveInactive cfg cs of
             Inl e \<Rightarrow> Inl (InactiveColorError e)
           | Inr ics \<Rightarrow>
               if length ics \<noteq> length cs then Inl TrackLengthMismatch
               else Inr \<lparr>colors = cs, inactiveColors = ics,
                 stepsPerTransition = stepsPerTransition_of cfg,
                 delay = delay_of cfg,
                 activeGlow = Glow (Active cfg),
                 inactiveGlow = Glow (Inactive cfg),
                 width = Width (Active cfg)\<rparr>))"

section \<open>The animation loop\<close>

text \<open>
  What one pass through the innermost loop body does, as events: the \<^verbatim>\<open>borders\<close>
  command is run with the two colour arguments and the width (the order of its arguments
  is that of a Go map iteration, and is not modelled; the width is kept as a number, not
  as the text \<^verbatim>\<open>%f\<close> prints), an error of the command is printed, and the loop sleeps.
  A colour argument is \<open>None\<close> where the interpolated channel is left to the
  implementation.
\<close>

datatype event =
    Borders "string option" "string option" rat
  | LogError
  | Sleep int
  | Panic

definition glow :: "bool \<Rightarrow> string \<Rightarrow> string" where
  "glow g s = (if g then ''glow('' @ s @ '')'' else s)"

text \<open>\<^verbatim>\<open>t := float64(step) / float64(stepsPerTransition)\<close>\<close>

definition frame_t :: "int \<Rightarrow> int \<Rightarrow> rat option" where
  "frame_t step steps =
     (case float64_of_int step of None \<Rightarrow> None | Some x \<Rightarrow>
      (case float64_of_int steps of None \<Rightarrow> None | Some y \<Rightarrow> fdiv x y))"

text \<open>
  The interpolated colour of one track at index \<open>i\<close>: between \<^verbatim>\<open>track[i]\<close> and
  \<^verbatim>\<open>track[(i+1)%len(track)]\<close>. When \<open>t\<close> is not finite every channel is a conversion of
  a NaN.
\<close>

definition frame_color :: "color list \<Rightarrow> nat \<Rightarrow> rat option \<Rightarrow> color option" where
  "frame_color track i t =
     (case t of
        None \<Rightarrow> None
      | Some t' \<Rightarrow> interpolateColor (track ! i) (track ! ((i + 1) mod length track)) t')"

definition loop_body :: "animation \<Rightarrow> int \<Rightarrow> int \<Rightarrow> bool \<Rightarrow> nat \<times> int \<Rightarrow> event list" where
  "loop_body a steps d failed st =
     (case st of (i, step) \<Rightarrow>
        let t = frame_t step steps;
            activeColorHex =
              map_option (\<lambda>c. glow (activeGlow a) (colorToHex c)) (frame_color (colors a) i t);
            inactiveColorHex =
              map_option (\<lambda>c. glow (inactiveGlow a) (colorToHex c)) (frame_color (inactiveColors a) i t)
        in [Borders activeColorHex inactiveColorHex (width a)]
           @ (if failed then [LogError] else [])
           @ [Sleep d])"

text \<open>
  The three nested loops as a machine on \<open>(i, step)\<close>. After a pass through the body
  \<^verbatim>\<open>step++\<close> runs; when \<^verbatim>\<open>step <= stepsPerTransition\<close> fails \<^verbatim>\<open>i++\<close> runs and \<open>step\<close>
  starts again at 0; when \<^verbatim>\<open>i < len(colors)\<close> fails the outer \<^verbatim>\<open>for\<close> starts again at
  \<open>i = 0\<close>. (Go's \<^verbatim>\<open>int\<close> has 64 bits; the counters stay between 0 and
  \<open>stepsPerTransition + 1\<close>, and are unbounded integers here.)
\<close>

definition advance :: "nat \<Rightarrow> int \<Rightarrow> nat \<times> int \<Rightarrow> nat \<times> int" where
  "advance len steps st =
     (case st of (i, step) \<Rightarrow>
        if step + 1 \<le> steps then (i, step + 1)
        else if i + 1 < len then (i + 1, 0)
        else (0, 0))"

text \<open>
  The loop never ends by itself. \<open>run\<close> follows it for as many passes through the body as
  the list \<open>sink\<close> is long; the list is what the successive runs of the \<^verbatim>\<open>borders\<close>
  command return (\<open>True\<close>: \<^verbatim>\<open>cmd.Run()\<close> gave an error). Reading \<^verbatim>\<open>inactiveColors[i]\<close>
  out of range panics.
\<close>

fun run :: "animation \<Rightarrow> int \<Rightarrow> int \<Rightarrow> bool list \<Rightarrow> nat \<times> int \<Rightarrow> event list \<times> (nat \<times> int) option" where
  "run a steps d [] st = ([], Some st)"
| "run a steps d (failed # sink) st =
     (if length (inactiveColors a) \<le> fst st then ([Panic], None)
      else (case run a steps d sink (advance (length (colors a)) steps st) of
        (evs, st') \<Rightarrow> (loop_body a steps d failed st @ evs, st')))"

text \<open>
  With no colour, or with a negative number of steps, the body is never reached: the
  program spins without running the command.
\<close>

definition animate :: "animation \<Rightarrow> int \<Rightarrow> int \<Rightarrow> bool list \<Rightarrow> event list" where
  "animate a steps d sink =
     (if colors a = [] \<or> steps < 0 then [] else fst (run a steps d sink (0, 0)))"

text \<open>
  \<^verbatim>\<open>main\<close> from the parsing of the colours on: it exits with an error before the loop,
  or runs the loop.
\<close>

datatype outcome = Exit startup_error | Unspecified | Loop "event list"

definition main :: "Config \<Rightarrow> bool list \<Rightarrow> outcome" where
  "main cfg sink =
     (case startup cfg of
        Inl e \<Rightarrow> Exit e
      | Inr a \<Rightarrow>
          (case stepsPerTransition a of
             None \<Rightarrow> Unspecified
           | Some steps \<Rightarrow>
               (case delay a of
                  None \<Rightarrow> Unspecified
                | Some d \<Rightarrow> Loop (animate a steps d sink))))"

section \<open>Concrete configurations\<close>

text \<open>Inputs at which the theorems below are instantiated.\<close>

definition rgbw :: "string list" where
  "rgbw = [''#FF0000FF'', ''#00FF00FF'', ''#0000FFFF'', ''#FFFFFFFF'']"

definition rgbw_colors :: "color list" where
  "rgbw_colors = [\<lparr>R = 255, G = 0, B = 0, A = 255\<rparr>, \<lparr>R = 0, G = 255, B = 0, A = 255\<rparr>,
     \<lparr>R = 0, G = 0, B = 255, A = 255\<rparr>, \<lparr>R = 255, G = 255, B = 255, A = 255\<rparr>]"

definition rgb :: "string list" where
  "rgb = [''#FF0000FF'', ''#00FF00FF'', ''#0000FFFF'']"

definition rgb_colors :: "color list" where
  "rgb_colors = [\<lparr>R = 255, G = 0, B = 0, A = 255\<rparr>, \<lparr>R = 0, G = 255, B = 0, A = 255\<rparr>,
     \<lparr>R = 0, G = 0, B = 255, A = 255\<rparr>]"

definition config_of :: "string list \<Rightarrow> string list \<Rightarrow> rat \<Rightarrow> rat \<Rightarrow> Config" where
  "config_of act inact secs fps =
     \<lparr>Active = \<lparr>Colors = act, Secs = secs, FPS = fps, Width = 5, Glow = False\<rparr>,
      Inactive = \<lparr>Colors = inact, Secs = 0, FPS = 0, Width = 0, Glow = False\<rparr>\<rparr>"



text \<open>The float64 value that \<^verbatim>\<open>0.7\<close> denotes.\<close>

definition secs_0_7 :: rat where
  "secs_0_7 = 3152519739159347 / 4503599627370496"

section \<open>Predicates and inputs of the interpolation theorems\<close>


definition white :: color where
  "white = \<lparr>R = 255, G = 255, B = 255, A = 255\<rparr>"

definition t_3_of_7 :: rat where
  "t_3_of_7 = 7720456504063707 / 18014398509481984"

definition off_by_at_most_one :: "8 word \<Rightarrow> 8 word \<Rightarrow> bool" where
  "off_by_at_most_one p r = (r = p \<or> (p \<noteq> 0 \<and> r = p - 1))"

section \<open>Reading the trace of the loop\<close>

text \<open>
  \<open>frames\<close> keeps the runs of the \<^verbatim>\<open>borders\<close> command of a trace; \<open>state_at n\<close> is the state
  of the loop after \<open>n\<close> passes; \<open>frame_of\<close> is the command a pass in a given state runs;
  \<open>trackIndex\<close> and \<open>subStep\<close> are the closed forms of the two counters.
\<close>

fun is_frame :: "event \<Rightarrow> bool" where
  "is_frame (Borders _ _ _) = True"
| "is_frame _ = False"

definition frames :: "event list \<Rightarrow> event list" where
  "frames evs = filter is_frame evs"

definition state_at :: "nat \<Rightarrow> int \<Rightarrow> nat \<Rightarrow> nat \<times> int" where
  "state_at len steps n = (advance len steps ^^ n) (0, 0)"

definition frame_of :: "animation \<Rightarrow> int \<Rightarrow> nat \<times> int \<Rightarrow> event" where
  "frame_of a steps st =
     Borders (map_option (\<lambda>c. glow (activeGlow a) (colorToHex c))
                (frame_color (colors a) (fst st) (frame_t (snd st) steps)))
             (map_option (\<lambda>c. glow (inactiveGlow a) (colorToHex c))
                (frame_color (inactiveColors a) (fst st) (frame_t (snd st) steps)))
             (width a)"

definition trackIndex :: "nat \<Rightarrow> int \<Rightarrow> nat \<Rightarrow> nat" where
  "trackIndex len steps n = (n div (nat steps + 1)) mod len"

definition subStep :: "int \<Rightarrow> nat \<Rightarrow> int" where
  "subStep steps n = int (n mod (nat steps + 1))"

definition red_blue :: animation where
  "red_blue = \<lparr>colors = [\<lparr>R = 255, G = 0, B = 0, A = 255\<rparr>, \<lparr>R = 0, G = 0, B = 255, A = 255\<rparr>],
     inactiveColors = [\<lparr>R = 0, G = 0, B = 255, A = 255\<rparr>, \<lparr>R = 255, G = 0, B = 0, A = 255\<rparr>],
     stepsPerTransition = Some 2, delay = Some 500000000,
     activeGlow = False, inactiveGlow = False, width = 5\<rparr>"

section \<open>The canonical form of a hexadecimal digit\<close>

text \<open>The upper-case form of a hexadecimal digit, for the statement of the round trip.\<close>

definition upperHex :: "char \<Rightarrow> char" where
  "upperHex c = (if c = CHR ''a'' then CHR ''A'' else if c = CHR ''b'' then CHR ''B''
     else if c = CHR ''c'' then CHR ''C'' else if c = CHR ''d'' then CHR ''D''
     else if c = CHR ''e'' then CHR ''E'' else if c = CHR ''f'' then CHR ''F'' else c)"

section \<open>Properties of the float64 model\<close>

lemma finite64_iff: "finite64 y \<longleftrightarrow> \<bar>y\<bar> < 2 ^ 1024"
proof -
  have "bitlen \<lfloor>\<bar>y\<bar>\<rfloor> \<le> 1024 \<longleftrightarrow> \<lfloor>\<bar>y\<bar>\<rfloor> < 2 ^ 1024"
    using bitlen_le_iff_power[of "\<lfloor>\<bar>y\<bar>\<rfloor>" 1024] by simp
  also have "\<dots> \<longleftrightarrow> \<bar>y\<bar> < of_int (2 ^ 1024)" by (rule floor_less_iff)
  finally show ?thesis by (simp add: finite64_def)
qed
lemma ilog2_le:
  assumes "0 < x"
  shows "2 powi (ilog2 x) \<le> x"
proof -
  obtain p q where pq: "quotient_of x = (p, q)" by force
  have q: "0 < q" using pq by (rule quotient_of_denom_pos)
  have x: "x = of_int p / of_int q" using pq by (rule quotient_of_div)
  have p: "0 < p" using assms q x by (simp add: zero_less_divide_iff)
  let ?d = "bitlen p - bitlen q"
  have bp: "1 \<le> bitlen p" using p bitlen_eq_zero_iff[of p] bitlen_nonneg[of p] by linarith
  have bq: "1 \<le> bitlen q" using q bitlen_eq_zero_iff[of q] bitlen_nonneg[of q] by linarith
  have lo: "(2::int) ^ nat (bitlen p - 1) \<le> p" using bitlen_bounds[OF p] by simp
  have hi: "q < (2::int) ^ nat (bitlen q)" using bitlen_bounds[OF q] by simp
  have lo': "(2::rat) powi (bitlen p - 1) \<le> of_int p"
  proof -
    have "(of_int ((2::int) ^ nat (bitlen p - 1)) :: rat) \<le> of_int p" using lo by (simp only: of_int_le_iff)
    then show ?thesis using bp by (simp add: power_int_def)
  qed
  have hi': "of_int q \<le> (2::rat) powi (bitlen q)"
  proof -
    have "(of_int q :: rat) \<le> of_int ((2::int) ^ nat (bitlen q))" using hi by (simp only: of_int_le_iff less_imp_le)
    then show ?thesis using bq by (simp add: power_int_def)
  qed
  have "(2::rat) powi (?d - 1) = 2 powi (bitlen p - 1) / 2 powi (bitlen q)"
    by (simp add: power_int_diff)
  also have "\<dots> \<le> of_int p / of_int q"
    using lo' hi' q p by (intro frac_le) auto
  finally have low: "(2::rat) powi (?d - 1) \<le> x" using x by simp
  show ?thesis using low by (simp add: ilog2_def pq Let_def)
qed



lemma round_half_even_err: "\<bar>of_int (round_half_even y) - y\<bar> \<le> 1 / 2"
  unfolding round_half_even_def Let_def
  by (auto simp: abs_if) linarith+

lemma round_half_even_of_int: "round_half_even (of_int k) = k"
  by (simp add: round_half_even_def)

lemma round_half_even_nonneg: "0 \<le> y \<Longrightarrow> 0 \<le> round_half_even y"
  unfolding round_half_even_def Let_def
  by (auto simp: abs_if)

lemma quantum_le:
  assumes "x \<noteq> 0" "\<bar>x\<bar> \<le> 2 powi k" "- 1022 \<le> k"
  shows "quantum x \<le> k - 52"
proof -
  have "2 powi (ilog2 \<bar>x\<bar>) \<le> \<bar>x\<bar>" using assms(1) by (intro ilog2_le) simp
  then have "(2::rat) powi (ilog2 \<bar>x\<bar>) \<le> 2 powi k" using assms(2) by linarith
  then have "ilog2 \<bar>x\<bar> \<le> k"
    using power_int_strict_increasing[of k "ilog2 \<bar>x\<bar>" "2::rat"] by (cases "k < ilog2 \<bar>x\<bar>") auto
  then show ?thesis using assms(3) by (simp add: quantum_def)
qed




lemma quantum_lt:
  assumes "x \<noteq> 0" "\<bar>x\<bar> < 2 powi k" "- 1021 \<le> k"
  shows "quantum x \<le> k - 53"
proof -
  have "2 powi (ilog2 \<bar>x\<bar>) \<le> \<bar>x\<bar>" using assms(1) by (intro ilog2_le) simp
  then have "(2::rat) powi (ilog2 \<bar>x\<bar>) < 2 powi k" using assms(2) by linarith
  then have "ilog2 \<bar>x\<bar> < k"
    using power_int_increasing[of k "ilog2 \<bar>x\<bar>" "2::rat"] by (cases "k \<le> ilog2 \<bar>x\<bar>") auto
  then show ?thesis using assms(3) by (simp add: quantum_def)
qed

lemma rounded_err:
  assumes "x \<noteq> 0"
  shows "\<bar>sgn x * of_int (round_half_even (\<bar>x\<bar> / 2 powi (quantum x))) * 2 powi (quantum x) - x\<bar>
           \<le> 2 powi (quantum x) / 2"
proof -
  let ?q = "(2::rat) powi (quantum x)"
  let ?m = "round_half_even (\<bar>x\<bar> / ?q)"
  have qpos: "0 < ?q" by simp
  have "\<bar>of_int ?m - \<bar>x\<bar> / ?q\<bar> \<le> 1 / 2" by (rule round_half_even_err)
  then have "\<bar>of_int ?m - \<bar>x\<bar> / ?q\<bar> * ?q \<le> 1 / 2 * ?q"
    using qpos by (intro mult_right_mono) auto
  moreover have "\<bar>of_int ?m - \<bar>x\<bar> / ?q\<bar> * ?q = \<bar>of_int ?m * ?q - \<bar>x\<bar>\<bar>"
  proof -
    have "\<bar>of_int ?m - \<bar>x\<bar> / ?q\<bar> * ?q = \<bar>(of_int ?m - \<bar>x\<bar> / ?q) * ?q\<bar>"
      using qpos by (simp add: abs_mult)
    also have "(of_int ?m - \<bar>x\<bar> / ?q) * ?q = of_int ?m * ?q - \<bar>x\<bar>"
      using qpos by (simp add: algebra_simps)
    finally show ?thesis .
  qed
  moreover have "\<bar>sgn x * of_int ?m * ?q - x\<bar> = \<bar>of_int ?m * ?q - \<bar>x\<bar>\<bar>"
  proof (cases "0 < x")
    case True
    then show ?thesis by simp
  next
    case False
    then have neg: "x < 0" using assms by simp
    then have "sgn x * of_int ?m * ?q - x = - (of_int ?m * ?q - \<bar>x\<bar>)" by simp
    then show ?thesis by (simp only: abs_minus_cancel)
  qed
  ultimately show ?thesis by simp
qed

lemma fl64_err:
  assumes "fl64 x = Some y" "x \<noteq> 0"
  shows "\<bar>y - x\<bar> \<le> 2 powi (quantum x) / 2"
proof -
  have "y = sgn x * of_int (round_half_even (\<bar>x\<bar> / 2 powi (quantum x))) * 2 powi (quantum x)"
    using assms by (simp add: fl64_def Let_def split: if_splits)
  then show ?thesis using rounded_err[OF assms(2)] by simp
qed

lemma fl64_sign:
  assumes "fl64 x = Some y" "0 \<le> x"
  shows "0 \<le> y"
proof (cases "x = 0")
  case True
  then show ?thesis using assms by (simp add: fl64_def)
next
  case False
  then have pos: "0 < x" using assms(2) by simp
  have "0 \<le> round_half_even (\<bar>x\<bar> / 2 powi (quantum x))"
    by (rule round_half_even_nonneg) simp
  then show ?thesis
    using assms(1) False pos by (auto simp: fl64_def Let_def split: if_splits)
qed

lemma fl64_bounded:
  assumes "\<bar>x\<bar> \<le> 2 powi k" "- 1022 \<le> k" "k \<le> 1000"
  shows "\<exists>y. fl64 x = Some y \<and> \<bar>y - x\<bar> \<le> 2 powi (k - 53)"
proof (cases "x = 0")
  case True
  then show ?thesis by (simp add: fl64_def)
next
  case False
  let ?q = "(2::rat) powi (quantum x)"
  let ?y = "sgn x * of_int (round_half_even (\<bar>x\<bar> / ?q)) * ?q"
  have q: "quantum x \<le> k - 52" using False assms(1,2) by (rule quantum_le)
  have qle: "?q \<le> 2 powi (k - 52)" using q by (intro power_int_increasing) auto
  have half: "(2::rat) powi (k - 52) / 2 = 2 powi (k - 53)"
    by (simp add: power_int_diff)
  have k1: "(2::rat) powi k \<le> 2 powi 1000" using assms(3) by (intro power_int_increasing) auto
  have k2: "(2::rat) powi (k - 53) \<le> 2 powi 1000" using assms(3) by (intro power_int_increasing) auto
  have gen: "\<bar>z - x\<bar> \<le> 2 powi (k - 53)" if "fl64 x = Some z" for z
  proof -
    have "\<bar>z - x\<bar> \<le> ?q / 2" using that False by (rule fl64_err)
    also have "\<dots> \<le> 2 powi (k - 52) / 2" using qle by simp
    finally show ?thesis using half by simp
  qed
  have "fl64 x = Some ?y \<or> fl64 x = None" by (simp add: fl64_def Let_def False)
  moreover have False if none: "fl64 x = None"
  proof -
    have big: "2 ^ 1024 \<le> \<bar>?y\<bar>"
      using none False by (simp add: fl64_def Let_def finite64_iff split: if_splits)
    have "\<bar>?y - x\<bar> \<le> ?q / 2" using False by (rule rounded_err)
    also have "\<dots> \<le> 2 powi (k - 52) / 2" using qle by simp
    finally have "\<bar>?y - x\<bar> \<le> 2 powi 1000" using half k2 by simp
    then have "\<bar>?y\<bar> \<le> 2 powi 1000 + 2 powi 1000" using assms(1) k1 by linarith
    then have "\<bar>?y\<bar> \<le> 2 ^ 1001" by simp
    moreover have "(2::rat) ^ 1001 < 2 ^ 1024" by (rule power_strict_increasing) simp_all
    ultimately show False using big by linarith
  qed
  ultimately obtain z where "fl64 x = Some z" by auto
  then show ?thesis using gen by blast
qed



lemma round_half_even_le: "y \<le> of_int k \<Longrightarrow> round_half_even y \<le> k"
  unfolding round_half_even_def Let_def
  by (auto simp: floor_le_iff)

lemma quantum_nonpos:
  assumes "x \<noteq> 0" "\<bar>x\<bar> < 2 ^ 53"
  shows "quantum x \<le> 0"
  using quantum_lt[of x 53] assms by simp

lemma inverse_quantum:
  assumes "e \<le> 0"
  shows "z / (2::rat) powi e = z * of_int (2 ^ nat (- e))" "(of_int (2 ^ nat (- e)) :: rat) * 2 powi e = 1"
  using assms by (simp_all add: power_int_def field_simps)

lemma fl64_of_int:
  assumes "\<bar>n\<bar> < 2 ^ 53"
  shows "fl64 (of_int n) = Some (of_int n)"
proof (cases "n = 0")
  case True
  then show ?thesis by (simp add: fl64_def)
next
  case False
  let ?x = "of_int n :: rat"
  let ?e = "quantum ?x"
  have x0: "?x \<noteq> 0" using False by simp
  have "\<bar>?x\<bar> < 2 ^ 53"
  proof -
    have "(of_int \<bar>n\<bar> :: rat) < of_int (2 ^ 53)" using assms by (simp only: of_int_less_iff)
    then show ?thesis by simp
  qed
  then have e: "?e \<le> 0" and small: "\<bar>?x\<bar> < 2 ^ 1024"
    using x0 quantum_nonpos by (auto intro: less_trans)
  have a: "\<bar>?x\<bar> / 2 powi ?e = of_int (\<bar>n\<bar> * 2 ^ nat (- ?e))"
    using inverse_quantum(1)[OF e, of "\<bar>?x\<bar>"] by simp
  have "round_half_even (\<bar>?x\<bar> / 2 powi ?e) = \<bar>n\<bar> * 2 ^ nat (- ?e)"
    by (simp only: a round_half_even_of_int)
  then have "(of_int (round_half_even (\<bar>?x\<bar> / 2 powi ?e)) :: rat) * 2 powi ?e
      = of_int (\<bar>n\<bar> * 2 ^ nat (- ?e)) * 2 powi ?e" by (rule arg_cong)
  also have "\<dots> = of_int \<bar>n\<bar> * (of_int (2 ^ nat (- ?e)) * 2 powi ?e)"
    by (simp only: of_int_mult mult.assoc)
  also have "\<dots> = \<bar>?x\<bar>" using inverse_quantum(2)[OF e] by simp
  finally have "sgn ?x * of_int (round_half_even (\<bar>?x\<bar> / 2 powi ?e)) * 2 powi ?e = ?x"
    by (simp add: mult.assoc sgn_mult_abs)
  then show ?thesis using x0 small by (simp add: fl64_def Let_def finite64_iff)
qed

lemma fl64_le_of_int:
  assumes "fl64 x = Some y" "0 \<le> x" "x \<le> of_int n" "n < 2 ^ 53"
  shows "y \<le> of_int n"
proof (cases "x = 0")
  case True
  then show ?thesis using assms by (simp add: fl64_def)
next
  case False
  let ?e = "quantum x"
  have pos: "0 < x" using False assms(2) by simp
  have "x < 2 ^ 53"
  proof -
    have "(of_int n :: rat) < of_int (2 ^ 53)" using assms(4) by (simp only: of_int_less_iff)
    then show ?thesis using assms(3) by simp
  qed
  then have e: "?e \<le> 0" using quantum_nonpos[of x] pos by simp
  have "\<bar>x\<bar> / 2 powi ?e \<le> of_int (n * 2 ^ nat (- ?e))"
    using inverse_quantum(1)[OF e, of "\<bar>x\<bar>"] pos assms(3) by (simp add: mult_right_mono)
  then have "round_half_even (\<bar>x\<bar> / 2 powi ?e) \<le> n * 2 ^ nat (- ?e)"
    by (rule round_half_even_le)
  then have "(of_int (round_half_even (\<bar>x\<bar> / 2 powi ?e)) :: rat) \<le> of_int (n * 2 ^ nat (- ?e))"
    by (simp only: of_int_le_iff)
  then have "(of_int (round_half_even (\<bar>x\<bar> / 2 powi ?e)) :: rat) * 2 powi ?e \<le> of_int (n * 2 ^ nat (- ?e)) * (2::rat) powi ?e"
    by (intro mult_right_mono) auto
  also have "\<dots> = of_int n * (of_int (2 ^ nat (- ?e)) * 2 powi ?e)" by (simp only: of_int_mult mult.assoc)
  also have "\<dots> = of_int n" using inverse_quantum(2)[OF e] by simp
  finally have "sgn x * of_int (round_half_even (\<bar>x\<bar> / 2 powi ?e)) * 2 powi ?e \<le> of_int n"
    using pos by simp
  moreover have "y = sgn x * of_int (round_half_even (\<bar>x\<bar> / 2 powi ?e)) * 2 powi ?e"
    using assms(1) False by (simp add: fl64_def Let_def split: if_splits)
  ultimately show ?thesis by simp
qed

lemma float64_of_uint8_range: "0 \<le> float64_of_uint8 a" "float64_of_uint8 a \<le> 255"
proof -
  show "0 \<le> float64_of_uint8 a" unfolding float64_of_uint8_def by (rule of_nat_0_le_iff)
  have "unat a < 2 ^ 8" using unsigned_less[of a, where 'a = nat] by simp
  then have "unat a \<le> 255" by simp
  then have "(of_nat (unat a) :: rat) \<le> of_nat 255" by (simp only: of_nat_le_iff)
  then show "float64_of_uint8 a \<le> 255" unfolding float64_of_uint8_def by simp
qed

lemma fl64_unit:
  assumes "0 \<le> x" "x \<le> 1"
  shows "\<exists>u. fl64 x = Some u \<and> 0 \<le> u \<and> u \<le> 1 \<and> \<bar>u - x\<bar> \<le> 1 / 2 ^ 53"
proof -
  have "\<bar>x\<bar> \<le> 2 powi 0" using assms by simp
  from fl64_bounded[OF this] obtain u where u: "fl64 x = Some u"
    and ue: "\<bar>u - x\<bar> \<le> 2 powi (0 - 53)" by auto
  have u0: "0 \<le> u" using u assms(1) by (rule fl64_sign)
  have u1: "u \<le> 1" using fl64_le_of_int[OF u, of 1] assms by simp
  have "(2::rat) powi (0 - 53) = 1 / 2 ^ 53" by (simp add: power_int_minus field_simps)
  then show ?thesis using u u0 u1 ue by simp
qed

lemma fl64_byte:
  assumes "0 \<le> x" "x \<le> 255"
  shows "\<exists>y. fl64 x = Some y \<and> 0 \<le> y \<and> y \<le> 255 \<and> \<bar>y - x\<bar> \<le> 1 / 2 ^ 45"
proof -
  have "\<bar>x\<bar> \<le> 2 powi 8" using assms by simp
  from fl64_bounded[OF this] obtain y where y: "fl64 x = Some y"
    and ye: "\<bar>y - x\<bar> \<le> 2 powi (8 - 53)" by auto
  have y0: "0 \<le> y" using y assms(1) by (rule fl64_sign)
  have y1: "y \<le> 255" using fl64_le_of_int[OF y, of 255] assms by simp
  have "(2::rat) powi (8 - 53) = 1 / 2 ^ 45" by (simp add: power_int_minus field_simps)
  then show ?thesis using y y0 y1 ye by simp
qed

lemma fl64_sum:
  assumes "0 \<le> x" "x \<le> 510"
  shows "\<exists>s. fl64 x = Some s \<and> 0 \<le> s \<and> \<bar>s - x\<bar> \<le> 1 / 2 ^ 44"
proof -
  have "\<bar>x\<bar> \<le> 2 powi 9" using assms by simp
  from fl64_bounded[OF this] obtain s where s: "fl64 x = Some s"
    and se: "\<bar>s - x\<bar> \<le> 2 powi (9 - 53)" by auto
  have s0: "0 \<le> s" using s assms(1) by (rule fl64_sign)
  have "(2::rat) powi (9 - 53) = 1 / 2 ^ 44" by (simp add: power_int_minus field_simps)
  then show ?thesis using s s0 se by simp
qed

lemma lerp_error:
  fixes s x y p q e :: rat
  assumes "\<bar>s - (x + y)\<bar> \<le> 1 / 2 ^ 44" "\<bar>x - p\<bar> \<le> 1 / 2 ^ 45" "\<bar>y - q\<bar> \<le> 1 / 2 ^ 45"
    "\<bar>p - e\<bar> \<le> 255 / 2 ^ 53"
  shows "\<bar>s - (e + q)\<bar> \<le> 1 / 2 ^ 42"
proof -
  have "\<bar>s - (e + q)\<bar> \<le> \<bar>s - (x + y)\<bar> + \<bar>x - p\<bar> + \<bar>y - q\<bar> + \<bar>p - e\<bar>" by linarith
  also have "\<dots> \<le> 1 / 2 ^ 44 + 1 / 2 ^ 45 + 1 / 2 ^ 45 + 255 / 2 ^ 53"
    by (intro add_mono assms)
  also have "\<dots> \<le> 1 / 2 ^ 42" by simp
  finally show ?thesis .
qed

lemma interpolateChannel_sound:
  assumes t0: "0 \<le> t" and t1: "t \<le> 1"
  shows "\<exists>u x y s. fsub 1 t = Some u \<and> fmul (float64_of_uint8 a) u = Some x
           \<and> fmul (float64_of_uint8 b) t = Some y \<and> fadd x y = Some s
           \<and> 0 \<le> s \<and> s < 256
           \<and> \<bar>s - (float64_of_uint8 a * (1 - t) + float64_of_uint8 b * t)\<bar> \<le> 1 / 2 ^ 42
           \<and> interpolateChannel a b t = Some (word_of_int \<lfloor>s\<rfloor>)"
proof -
  let ?a = "float64_of_uint8 a" and ?b = "float64_of_uint8 b"
  note ar = float64_of_uint8_range[of a] and br = float64_of_uint8_range[of b]
  have "0 \<le> 1 - t" "1 - t \<le> 1" using t0 t1 by simp_all
  from fl64_unit[OF this] obtain u where u: "fl64 (1 - t) = Some u"
    and u0: "0 \<le> u" and u1: "u \<le> 1" and ue: "\<bar>u - (1 - t)\<bar> \<le> 1 / 2 ^ 53" by auto
  have au0: "0 \<le> ?a * u" using ar u0 by simp
  have au1: "?a * u \<le> 255" using mult_mono[of ?a 255 u 1] ar u0 u1 by simp
  from fl64_byte[OF au0 au1] obtain x where x: "fl64 (?a * u) = Some x"
    and x0: "0 \<le> x" and x1: "x \<le> 255" and xe: "\<bar>x - ?a * u\<bar> \<le> 1 / 2 ^ 45" by auto
  have bt0: "0 \<le> ?b * t" using br t0 by simp
  have bt1: "?b * t \<le> 255" using mult_mono[of ?b 255 t 1] br t0 t1 by simp
  from fl64_byte[OF bt0 bt1] obtain y where y: "fl64 (?b * t) = Some y"
    and y0: "0 \<le> y" and y1: "y \<le> 255" and ye: "\<bar>y - ?b * t\<bar> \<le> 1 / 2 ^ 45" by auto
  have xy0: "0 \<le> x + y" and xy1: "x + y \<le> 510" using x0 x1 y0 y1 by simp_all
  from fl64_sum[OF xy0 xy1] obtain s where s: "fl64 (x + y) = Some s"
    and s0: "0 \<le> s" and se: "\<bar>s - (x + y)\<bar> \<le> 1 / 2 ^ 44" by auto
  have "\<bar>?a * u - ?a * (1 - t)\<bar> = ?a * \<bar>u - (1 - t)\<bar>"
    using ar(1) by (simp only: abs_mult abs_of_nonneg flip: right_diff_distrib)
  also have "\<dots> \<le> 255 * (1 / 2 ^ 53)" using ar ue by (intro mult_mono) auto
  finally have aue: "\<bar>?a * u - ?a * (1 - t)\<bar> \<le> 255 / 2 ^ 53" by simp
  have err: "\<bar>s - (?a * (1 - t) + ?b * t)\<bar> \<le> 1 / 2 ^ 42"
    using se xe ye aue by (rule lerp_error)
  have "?a * (1 - t) \<le> 255 * (1 - t)" using ar t1 by (intro mult_right_mono) auto
  moreover have "?b * t \<le> 255 * t" using br t0 by (intro mult_right_mono) auto
  ultimately have e255: "?a * (1 - t) + ?b * t \<le> 255" by simp
  have "(1::rat) / 2 ^ 42 < 1" by simp
  then have s1: "s < 256" using err e255 by linarith
  have fl0: "0 \<le> \<lfloor>s\<rfloor>" using s0 by simp
  have fl1: "\<lfloor>s\<rfloor> \<le> 255" using s1 by (simp add: floor_le_iff)
  have "uint8_of_float64 s = Some (word_of_int \<lfloor>s\<rfloor>)"
    using s0 fl0 fl1 by (simp add: uint8_of_float64_def truncate_toward_zero_def)
  then have "interpolateChannel a b t = Some (word_of_int \<lfloor>s\<rfloor>)"
    using u x y s by (simp add: interpolateChannel_def fsub_def fmul_def fadd_def)
  then show ?thesis using u x y s s0 s1 err by (simp add: fsub_def fmul_def fadd_def)
qed

section \<open>Start-up: the derived inactive track and the length check\<close>

lemma parse_rgbw: "parseColors rgbw = Inr rgbw_colors"
  by code_simp

lemma parse_rgb: "parseColors rgb = Inr rgb_colors"
  by code_simp

lemma startup_derived:
  assumes "parseColors (Colors (Active cfg)) = Inr cs" "deriveInactive cfg cs = Inr ics"
    "length ics = length cs"
  shows "\<exists>a. startup cfg = Inr a \<and> colors a = cs \<and> inactiveColors a = ics"
  using assms by (simp add: startup_def)

text \<open>
  Claim C6. With no inactive colours configured, the inactive track that start-up derives
  is the parsed active track rotated left by half its length, rounded down: its second
  half followed by its first half. Four colours \<open>c0, c1, c2, c3\<close> give
  \<open>c2, c3, c0, c1\<close>.
\<close>

theorem derived_inactive_is_rotation:
  assumes "parseColors (Colors (Active cfg)) = Inr cs" and "Colors (Inactive cfg) = []"
  shows "\<exists>a. startup cfg = Inr a \<and> colors a = cs
           \<and> inactiveColors a = drop (length cs div 2) cs @ take (length cs div 2) cs
           \<and> inactiveColors a = rotate (length cs div 2) cs
           \<and> (\<forall>c0 c1 c2 c3. cs = [c0, c1, c2, c3] \<longrightarrow> inactiveColors a = [c2, c3, c0, c1])"
proof -
  let ?k = "length cs div 2"
  have d: "deriveInactive cfg cs = Inr (drop ?k cs @ take ?k cs)"
    using assms(2) by (simp add: deriveInactive_def Let_def)
  have len: "length (drop ?k cs @ take ?k cs) = length cs" by simp
  from startup_derived[OF assms(1) d len] obtain a where a: "startup cfg = Inr a"
    "colors a = cs" "inactiveColors a = drop ?k cs @ take ?k cs" by blast
  have rot: "rotate ?k cs = drop ?k cs @ take ?k cs"
  proof (cases "cs = []")
    case True
    then show ?thesis by simp
  next
    case False
    then have "?k mod length cs = ?k" by simp
    then show ?thesis using rotate_drop_take[of ?k cs] by simp
  qed
  have four: "inactiveColors a = [c2, c3, c0, c1]" if "cs = [c0, c1, c2, c3]" for c0 c1 c2 c3
    using a(3) that by simp
  show ?thesis using a rot four by auto
qed

theorem derived_inactive_is_rotation_witness:
  "\<exists>a. startup (config_of rgbw [] 3 3) = Inr a \<and> colors a = rgbw_colors
       \<and> inactiveColors a = drop (length rgbw_colors div 2) rgbw_colors @ take (length rgbw_colors div 2) rgbw_colors
       \<and> inactiveColors a = rotate (length rgbw_colors div 2) rgbw_colors
       \<and> (\<forall>c0 c1 c2 c3. rgbw_colors = [c0, c1, c2, c3] \<longrightarrow> inactiveColors a = [c2, c3, c0, c1])"
proof -
  have h1: "parseColors (Colors (Active (config_of rgbw [] 3 3))) = Inr rgbw_colors"
    by (simp add: config_of_def parse_rgbw)
  have h2: "Colors (Inactive (config_of rgbw [] 3 3)) = []" by (simp add: config_of_def)
  show ?thesis by (rule derived_inactive_is_rotation[OF h1 h2])
qed

text \<open>
  Claim C10. When the inactive track is derived by rotation, it is as long as the active
  track, so start-up does not end with the track-length-mismatch error.
\<close>

theorem derived_track_never_mismatched:
  assumes "parseColors (Colors (Active cfg)) = Inr cs" and "Colors (Inactive cfg) = []"
  shows "\<exists>ics. deriveInactive cfg cs = Inr ics \<and> length ics = length cs
           \<and> startup cfg \<noteq> Inl TrackLengthMismatch
           \<and> main cfg sink \<noteq> Exit TrackLengthMismatch"
proof -
  let ?k = "length cs div 2"
  have d: "deriveInactive cfg cs = Inr (drop ?k cs @ take ?k cs)"
    using assms(2) by (simp add: deriveInactive_def Let_def)
  have len: "length (drop ?k cs @ take ?k cs) = length cs" by simp
  from startup_derived[OF assms(1) d len] obtain a where a: "startup cfg = Inr a" by blast
  then have "main cfg sink \<noteq> Exit TrackLengthMismatch"
    by (simp add: main_def split: option.splits)
  then show ?thesis using a d len by simp
qed

theorem derived_track_never_mismatched_witness:
  "\<exists>ics. deriveInactive (config_of rgbw [] 3 3) rgbw_colors = Inr ics \<and> length ics = length rgbw_colors
       \<and> startup (config_of rgbw [] 3 3) \<noteq> Inl TrackLengthMismatch
       \<and> main (config_of rgbw [] 3 3) [False] \<noteq> Exit TrackLengthMismatch"
proof -
  have h1: "parseColors (Colors (Active (config_of rgbw [] 3 3))) = Inr rgbw_colors"
    by (simp add: config_of_def parse_rgbw)
  have h2: "Colors (Inactive (config_of rgbw [] 3 3)) = []" by (simp add: config_of_def)
  show ?thesis by (rule derived_track_never_mismatched[OF h1 h2])
qed

text \<open>
  Claim C8. When the inactive track, once derived, and the active track differ in length,
  start-up ends with the track-length-mismatch error; \<open>main\<close> exits there and the loop
  is not entered, so the \<^verbatim>\<open>borders\<close> command is never run.
\<close>

theorem mismatch_rejected_before_loop:
  assumes "parseColors (Colors (Active cfg)) = Inr cs" and "deriveInactive cfg cs = Inr ics"
    and "length ics \<noteq> length cs"
  shows "startup cfg = Inl TrackLengthMismatch \<and> main cfg sink = Exit TrackLengthMismatch"
  using assms by (simp add: startup_def main_def)

theorem mismatch_rejected_before_loop_witness:
  "startup (config_of rgbw rgb 3 3) = Inl TrackLengthMismatch
     \<and> main (config_of rgbw rgb 3 3) [False, False] = Exit TrackLengthMismatch"
proof -
  have h1: "parseColors (Colors (Active (config_of rgbw rgb 3 3))) = Inr rgbw_colors"
    by (simp add: config_of_def parse_rgbw)
  have "0 < length rgb" by (simp add: rgb_def)
  then have h2: "deriveInactive (config_of rgbw rgb 3 3) rgbw_colors = Inr rgb_colors"
    by (simp add: config_of_def deriveInactive_def parse_rgb)
  have h3: "length rgb_colors \<noteq> length rgbw_colors" by (simp add: rgb_colors_def rgbw_colors_def)
  show ?thesis by (rule mismatch_rejected_before_loop[OF h1 h2 h3])
qed

section \<open>interpolateColor\<close>

lemma float64_of_uint8_int: "float64_of_uint8 a = of_int (uint a)"
  unfolding float64_of_uint8_def by (simp only: of_nat_unat of_int_uint)

lemma fl64_uint8: "fl64 (float64_of_uint8 a) = Some (float64_of_uint8 a)"
proof -
  have "uint a < 2 ^ 8" using uint_bounded[of a] by simp
  moreover have "0 \<le> uint a" by simp
  ultimately have "\<bar>uint a\<bar> < 2 ^ 53" by simp
  then show ?thesis unfolding float64_of_uint8_int by (rule fl64_of_int)
qed

lemma uint8_of_float64_uint8: "uint8_of_float64 (float64_of_uint8 a) = Some a"
proof -
  have "uint a < 2 ^ 8" using uint_bounded[of a] by simp
  then have hi: "uint a \<le> 255" by simp
  have lo: "0 \<le> uint a" by simp
  have "(0::rat) \<le> of_int (uint a)" using lo by (simp only: of_int_0_le_iff)
  then have "truncate_toward_zero (float64_of_uint8 a) = \<lfloor>(of_int (uint a) :: rat)\<rfloor>"
    unfolding float64_of_uint8_int truncate_toward_zero_def by (simp only: if_True)
  also have "\<dots> = uint a" by (rule floor_of_int)
  finally have "truncate_toward_zero (float64_of_uint8 a) = uint a" .
  then show ?thesis using lo hi by (simp add: uint8_of_float64_def)
qed

lemma fl64_one: "fl64 1 = Some 1"
  using fl64_of_int[of 1] by simp

lemma interpolateChannel_at_0: "interpolateChannel a b 0 = Some a"
  by (simp add: interpolateChannel_def fsub_def fmul_def fadd_def fl64_one fl64_uint8
      uint8_of_float64_uint8 fl64_def[of 0])

lemma interpolateChannel_at_1: "interpolateChannel a b 1 = Some b"
  by (simp add: interpolateChannel_def fsub_def fmul_def fadd_def fl64_one fl64_uint8
      uint8_of_float64_uint8 fl64_def[of 0])

lemma interpolateColor_at_0: "interpolateColor c1 c2 0 = Some c1"
  by (simp add: interpolateColor_def interpolateChannel_at_0)

lemma interpolateColor_at_1: "interpolateColor c1 c2 1 = Some c2"
  by (simp add: interpolateColor_def interpolateChannel_at_1)




lemma channel_3_of_7: "interpolateChannel 255 255 t_3_of_7 = Some 254"
  by code_simp

lemma frame_t_3_7: "frame_t 3 7 = Some t_3_of_7"
  by code_simp

text \<open>
  Claim C2 says that interpolating a colour with itself gives the colour back for every
  \<open>t\<close> from 0 to 1. It does not: at \<open>t = float64(3)/float64(7)\<close>, the value of the fourth
  frame of a transition of seven steps, \<^verbatim>\<open>255*(1-t) + 255*t\<close> is
  \<open>254.99999999999997\<close> in float64 and the conversion drops the fraction: opaque white
  becomes \<open>0xFEFEFEFE\<close>.
\<close>

theorem interpolate_self_counterexample:
  "0 \<le> t_3_of_7 \<and> t_3_of_7 \<le> 1 \<and> frame_t 3 7 = Some t_3_of_7
     \<and> interpolateColor white white t_3_of_7 = Some \<lparr>R = 254, G = 254, B = 254, A = 254\<rparr>
     \<and> interpolateColor white white t_3_of_7 \<noteq> Some white"
proof -
  have "interpolateColor white white t_3_of_7 = Some \<lparr>R = 254, G = 254, B = 254, A = 254\<rparr>"
    by (simp add: interpolateColor_def white_def channel_3_of_7)
  moreover have "0 \<le> t_3_of_7 \<and> t_3_of_7 \<le> 1" by (simp add: t_3_of_7_def)
  ultimately show ?thesis using frame_t_3_7 by (simp add: white_def)
qed

lemma interpolateChannel_self:
  assumes "0 \<le> t" "t \<le> 1"
  shows "\<exists>r. interpolateChannel a a t = Some r \<and> off_by_at_most_one a r"
proof -
  let ?a = "float64_of_uint8 a"
  from interpolateChannel_sound[OF assms, of a a] obtain s where
    s0: "0 \<le> s" and s1: "s < 256"
    and err: "\<bar>s - (?a * (1 - t) + ?a * t)\<bar> \<le> 1 / 2 ^ 42"
    and res: "interpolateChannel a a t = Some (word_of_int \<lfloor>s\<rfloor>)" by blast
  have "?a * (1 - t) + ?a * t = ?a" by (simp add: algebra_simps)
  then have e: "\<bar>s - ?a\<bar> \<le> 1 / 2 ^ 42" using err by simp
  have small: "(1::rat) / 2 ^ 42 < 1" by simp
  have near: "\<bar>s - ?a\<bar> < 1" using e small by (rule le_less_trans)
  have "?a - 1 < s" using near by linarith
  then have lo: "of_int (uint a - 1) < s"
    by (simp only: float64_of_uint8_int of_int_diff of_int_1)
  have "s < ?a + 1" using near by linarith
  then have hi: "s < of_int (uint a + 1)"
    by (simp only: float64_of_uint8_int of_int_add of_int_1)
  have f1: "uint a - 1 \<le> \<lfloor>s\<rfloor>" using lo by (simp add: le_floor_iff)
  have "\<lfloor>s\<rfloor> < uint a + 1" using hi by (simp only: floor_less_iff)
  then have f2: "\<lfloor>s\<rfloor> \<le> uint a" by linarith
  have f0: "0 \<le> \<lfloor>s\<rfloor>" using s0 by simp
  have "\<lfloor>s\<rfloor> = uint a \<or> (\<lfloor>s\<rfloor> = uint a - 1 \<and> uint a \<noteq> 0)" using f0 f1 f2 by linarith
  then have "off_by_at_most_one a (word_of_int \<lfloor>s\<rfloor>)"
  proof
    assume "\<lfloor>s\<rfloor> = uint a"
    then show ?thesis by (simp add: off_by_at_most_one_def)
  next
    assume h: "\<lfloor>s\<rfloor> = uint a - 1 \<and> uint a \<noteq> 0"
    then have "a \<noteq> 0" by auto
    moreover have "(word_of_int (uint a - 1) :: 8 word) = a - 1" by simp
    ultimately show ?thesis using h by (simp add: off_by_at_most_one_def)
  qed
  then show ?thesis using res by blast
qed

text \<open>
  Claim C2 as amended: for \<open>t\<close> from 0 to 1, every channel of
  \<open>interpolateColor c c t\<close> is the channel of \<open>c\<close> or one less, and at \<open>t = 0\<close> and
  \<open>t = 1\<close> the result is \<open>c\<close>.
\<close>

theorem interpolate_self_near_identity:
  assumes "0 \<le> t" and "t \<le> 1"
  shows "interpolateColor c c 0 = Some c \<and> interpolateColor c c 1 = Some c
     \<and> (\<exists>c'. interpolateColor c c t = Some c'
           \<and> off_by_at_most_one (R c) (R c') \<and> off_by_at_most_one (G c) (G c')
           \<and> off_by_at_most_one (B c) (B c') \<and> off_by_at_most_one (A c) (A c'))"
proof -
  from interpolateChannel_self[OF assms] obtain r where
    r: "interpolateChannel (R c) (R c) t = Some r" "off_by_at_most_one (R c) r" by blast
  from interpolateChannel_self[OF assms] obtain g where
    g: "interpolateChannel (G c) (G c) t = Some g" "off_by_at_most_one (G c) g" by blast
  from interpolateChannel_self[OF assms] obtain b where
    b: "interpolateChannel (B c) (B c) t = Some b" "off_by_at_most_one (B c) b" by blast
  from interpolateChannel_self[OF assms] obtain a where
    a: "interpolateChannel (A c) (A c) t = Some a" "off_by_at_most_one (A c) a" by blast
  have "interpolateColor c c t = Some \<lparr>R = r, G = g, B = b, A = a\<rparr>"
    using r(1) g(1) b(1) a(1) by (simp add: interpolateColor_def)
  then show ?thesis using r(2) g(2) b(2) a(2) interpolateColor_at_0 interpolateColor_at_1 by simp
qed

theorem interpolate_self_near_identity_witness:
  "0 \<le> t_3_of_7 \<and> t_3_of_7 \<le> 1
     \<and> interpolateColor white white 0 = Some white \<and> interpolateColor white white 1 = Some white
     \<and> (\<exists>c'. interpolateColor white white t_3_of_7 = Some c'
           \<and> off_by_at_most_one (R white) (R c') \<and> off_by_at_most_one (G white) (G c')
           \<and> off_by_at_most_one (B white) (B c') \<and> off_by_at_most_one (A white) (A c'))"
proof -
  have h1: "0 \<le> t_3_of_7" and h2: "t_3_of_7 \<le> 1" by (simp_all add: t_3_of_7_def)
  show ?thesis using interpolate_self_near_identity[OF h1 h2, of white] h1 h2 by simp
qed

section \<open>The animation loop: order of the frames and failures of the command\<close>

lemma frames_loop_body: "frames (loop_body a steps d failed st) = [frame_of a steps st]"
  by (cases st) (simp add: frames_def loop_body_def frame_of_def Let_def)

lemma logs_loop_body:
  "filter (\<lambda>e. e = LogError) (loop_body a steps d failed st) = (if failed then [LogError] else [])"
  by (cases st) (simp add: loop_body_def Let_def)

lemma advance_fst: "fst st < len \<Longrightarrow> fst (advance len steps st) < len"
  by (cases st) (simp add: advance_def)

lemma advance_funpow_fst: "fst st < len \<Longrightarrow> fst ((advance len steps ^^ k) st) < len"
  by (induction k) (simp_all add: advance_fst)

lemma run_trace:
  assumes "length (inactiveColors a) = length (colors a)" "fst st < length (colors a)"
  shows "snd (run a steps d sink st) = Some ((advance (length (colors a)) steps ^^ length sink) st)
     \<and> frames (fst (run a steps d sink st))
         = map (\<lambda>k. frame_of a steps ((advance (length (colors a)) steps ^^ k) st)) [0..<length sink]
     \<and> filter (\<lambda>e. e = LogError) (fst (run a steps d sink st))
         = replicate (length (filter id sink)) LogError"
  using assms(2)
proof (induction sink arbitrary: st)
  case Nil
  then show ?case by (simp add: frames_def)
next
  case (Cons failed sink)
  let ?adv = "advance (length (colors a)) steps"
  have nx: "fst (?adv st) < length (colors a)" using Cons.prems by (rule advance_fst)
  note ih = Cons.IH[OF nx]
  obtain evs st' where r: "run a steps d sink (?adv st) = (evs, st')" by force
  have run: "run a steps d (failed # sink) st = (loop_body a steps d failed st @ evs, st')"
    using Cons.prems assms(1) r by simp
  have shift: "map (\<lambda>k. frame_of a steps ((?adv ^^ k) st)) [0..<Suc (length sink)]
      = frame_of a steps st # map (\<lambda>k. frame_of a steps ((?adv ^^ k) (?adv st))) [0..<length sink]"
    by (simp add: map_upt_Suc funpow_swap1 del: upt_Suc)
  have fr: "frames (loop_body a steps d failed st @ evs) = frame_of a steps st # frames evs"
    using frames_loop_body[of a steps d failed st] by (simp add: frames_def)
  show ?case using ih r run shift fr logs_loop_body[of a steps d failed st]
    by (simp add: funpow_swap1 del: upt_Suc)
qed

lemma wrap_index:
  assumes "0 < (len::nat)"
  shows "(if k mod len + 1 < len then k mod len + 1 else 0) = Suc k mod len"
proof -
  have "k mod len < len" using assms by simp
  then show ?thesis by (auto simp: mod_Suc)
qed

lemma state_at_closed:
  assumes "0 < len" "0 \<le> steps"
  shows "state_at len steps n = ((n div (nat steps + 1)) mod len, int (n mod (nat steps + 1)))"
proof (induction n)
  case 0
  then show ?case by (simp add: state_at_def)
next
  case (Suc n)
  let ?S = "nat steps + 1"
  have st: "state_at len steps (Suc n) = advance len steps (state_at len steps n)"
    by (simp add: state_at_def)
  show ?case
  proof (cases "Suc (n mod ?S) < ?S")
    case True
    then have m: "Suc n mod ?S = Suc (n mod ?S)" by (simp add: mod_Suc)
    have d: "Suc n div ?S = n div ?S" using True by (simp add: div_Suc mod_Suc)
    have "int (n mod ?S) + 1 \<le> steps" using True assms(2) by linarith
    then show ?thesis using st Suc m d by (simp add: advance_def)
  next
    case False
    then have last: "Suc (n mod ?S) = ?S" using mod_less_divisor[of ?S n] by linarith
    then have m: "Suc n mod ?S = 0" by (simp add: mod_Suc)
    have d: "Suc n div ?S = Suc (n div ?S)" using last by (simp add: div_Suc mod_Suc)
    have ns: "\<not> int (n mod ?S) + 1 \<le> steps" using last assms(2) by linarith
    have "state_at len steps (Suc n) = advance len steps ((n div ?S) mod len, int (n mod ?S))"
      using st Suc by simp
    also have "\<dots> = (if (n div ?S) mod len + 1 < len then ((n div ?S) mod len + 1, 0) else (0, 0))"
      using ns by (simp add: advance_def)
    also have "\<dots> = (Suc (n div ?S) mod len, 0)"
      using wrap_index[OF assms(1), of "n div ?S"] by (auto split: if_splits)
    finally show ?thesis using m d by simp
  qed
qed

lemma animate_trace:
  assumes "colors a \<noteq> []" "length (inactiveColors a) = length (colors a)" "0 \<le> steps"
  shows "snd (run a steps d sink (0, 0)) = Some (state_at (length (colors a)) steps (length sink))"
    and "frames (animate a steps d sink)
          = map (\<lambda>k. frame_of a steps (state_at (length (colors a)) steps k)) [0..<length sink]"
    and "filter (\<lambda>e. e = LogError) (animate a steps d sink) = replicate (length (filter id sink)) LogError"
proof -
  have z: "fst ((0::nat, 0::int)) < length (colors a)" using assms(1) by simp
  note t = run_trace[OF assms(2) z, of steps d sink]
  show "snd (run a steps d sink (0, 0)) = Some (state_at (length (colors a)) steps (length sink))"
    using t by (simp add: state_at_def)
  show "frames (animate a steps d sink)
          = map (\<lambda>k. frame_of a steps (state_at (length (colors a)) steps k)) [0..<length sink]"
    using t assms(1,3) by (simp add: state_at_def animate_def)
  show "filter (\<lambda>e. e = LogError) (animate a steps d sink) = replicate (length (filter id sink)) LogError"
    using t assms(1,3) by (simp add: animate_def)
qed

lemma loop_body_events:
  "loop_body a steps d failed st
     = frame_of a steps st # (if failed then [LogError] else []) @ [Sleep d]"
  by (cases st) (simp add: loop_body_def frame_of_def Let_def)

lemma state_at_counters:
  assumes "0 < len" "0 \<le> steps"
  shows "state_at len steps n = (trackIndex len steps n, subStep steps n)"
  using state_at_closed[OF assms, of n] by (simp add: trackIndex_def subStep_def)

text \<open>
  Claim C9. A pass through the loop body whose \<^verbatim>\<open>borders\<close> command fails differs from a
  successful pass by one printed error, before the same sleep, and leaves the loop in the
  same next state: \<open>step + 1\<close> while that is at most \<open>stepsPerTransition\<close>, else the next
  index with \<open>step = 0\<close>, else \<open>(0, 0)\<close>. Whatever the commands return, after \<open>n\<close> passes
  the loop is in the state \<open>(trackIndex n, subStep n)\<close>, the one it reaches when no command
  fails; the command has been run once per pass, the \<open>k\<close>-th time with the arguments of the
  state \<open>(trackIndex k, subStep k)\<close> (no pass is repeated, none is skipped, the loop has not
  stopped), and one error has been printed for each failure.
\<close>

theorem sink_failure_is_logged_and_ignored:
  assumes "colors a \<noteq> []" and "length (inactiveColors a) = length (colors a)" and "0 \<le> steps"
    and "fst st < length (colors a)"
  shows "loop_body a steps d True st = [frame_of a steps st, LogError, Sleep d]
     \<and> loop_body a steps d False st = [frame_of a steps st, Sleep d]
     \<and> run a steps d [failed] st
          = (loop_body a steps d failed st,
             Some (if snd st + 1 \<le> steps then (fst st, snd st + 1)
                   else if fst st + 1 < length (colors a) then (fst st + 1, 0) else (0, 0)))
     \<and> snd (run a steps d sink (0, 0))
          = Some (trackIndex (length (colors a)) steps (length sink), subStep steps (length sink))
     \<and> snd (run a steps d sink (0, 0)) = snd (run a steps d (map (\<lambda>failed. False) sink) (0, 0))
     \<and> frames (animate a steps d sink)
          = map (\<lambda>k. frame_of a steps (trackIndex (length (colors a)) steps k, subStep steps k))
              [0..<length sink]
     \<and> filter (\<lambda>e. e = LogError) (animate a steps d sink) = replicate (length (filter id sink)) LogError"
proof -
  let ?len = "length (colors a)"
  have len: "0 < ?len" using assms(1) by simp
  have b1: "loop_body a steps d True st = [frame_of a steps st, LogError, Sleep d]"
    by (simp add: loop_body_events)
  have b2: "loop_body a steps d False st = [frame_of a steps st, Sleep d]"
    by (simp add: loop_body_events)
  have one: "run a steps d [failed] st
          = (loop_body a steps d failed st,
             Some (if snd st + 1 \<le> steps then (fst st, snd st + 1)
                   else if fst st + 1 < ?len then (fst st + 1, 0) else (0, 0)))"
    using assms(2,4) by (cases st) (simp add: advance_def)
  have st: "snd (run a steps d xs (0, 0))
      = Some (trackIndex ?len steps (length xs), subStep steps (length xs))" for xs
    using animate_trace(1)[OF assms(1,2,3), of d xs] state_at_counters[OF len assms(3)] by simp
  have same: "snd (run a steps d sink (0, 0)) = snd (run a steps d (map (\<lambda>failed. False) sink) (0, 0))"
    using st[of sink] st[of "map (\<lambda>failed. False) sink"] by simp
  have fr: "frames (animate a steps d sink)
          = map (\<lambda>k. frame_of a steps (trackIndex ?len steps k, subStep steps k)) [0..<length sink]"
    using animate_trace(2)[OF assms(1,2,3), of d sink] state_at_counters[OF len assms(3)] by simp
  have lg: "filter (\<lambda>e. e = LogError) (animate a steps d sink) = replicate (length (filter id sink)) LogError"
    by (rule animate_trace(3)[OF assms(1,2,3)])
  show ?thesis using b1 b2 one st[of sink] same fr lg by (intro conjI)
qed

theorem sink_failure_is_logged_and_ignored_witness:
  "loop_body red_blue 2 500000000 True (1, 2) = [frame_of red_blue 2 (1, 2), LogError, Sleep 500000000]
     \<and> loop_body red_blue 2 500000000 False (1, 2) = [frame_of red_blue 2 (1, 2), Sleep 500000000]
     \<and> run red_blue 2 500000000 [True] (1, 2) = (loop_body red_blue 2 500000000 True (1, 2), Some (0, 0))
     \<and> snd (run red_blue 2 500000000 [False, True, True, False] (0, 0)) = Some (1, 1)
     \<and> snd (run red_blue 2 500000000 [False, True, True, False] (0, 0))
          = snd (run red_blue 2 500000000 [False, False, False, False] (0, 0))
     \<and> frames (animate red_blue 2 500000000 [False, True, True, False])
          = [frame_of red_blue 2 (0, 0), frame_of red_blue 2 (0, 1), frame_of red_blue 2 (0, 2),
             frame_of red_blue 2 (1, 0)]
     \<and> filter (\<lambda>e. e = LogError) (animate red_blue 2 500000000 [False, True, True, False])
          = [LogError, LogError]"
proof -
  have h1: "colors red_blue \<noteq> []" by (simp add: red_blue_def)
  have h2: "length (inactiveColors red_blue) = length (colors red_blue)" by (simp add: red_blue_def)
  have h3: "(0::int) \<le> 2" by simp
  have h4: "fst ((1::nat, 2::int)) < length (colors red_blue)" by (simp add: red_blue_def)
  have len: "length (colors red_blue) = 2" by (simp add: red_blue_def)
  have nx: "(if snd ((1::nat, 2::int)) + 1 \<le> 2 then (fst ((1::nat, 2::int)), snd ((1::nat, 2::int)) + 1)
             else if fst ((1::nat, 2::int)) + 1 < 2 then (fst ((1::nat, 2::int)) + 1, 0) else (0, 0))
           = (0::nat, 0::int)" by simp
  have n4: "length [False, True, True, False] = 4" by simp
  have ti: "trackIndex 2 2 4 = 1" "subStep 2 4 = 1" by (simp_all add: trackIndex_def subStep_def)
  have ev: "map (\<lambda>k. frame_of red_blue 2 (trackIndex 2 2 k, subStep 2 k)) [0..<4]
      = [frame_of red_blue 2 (0, 0), frame_of red_blue 2 (0, 1), frame_of red_blue 2 (0, 2),
         frame_of red_blue 2 (1, 0)]"
    by (simp add: trackIndex_def subStep_def upt_rec)
  have fl: "map (\<lambda>failed. False) [False, True, True, False] = [False, False, False, False]" by simp
  have lg: "replicate (length (filter id [False, True, True, False])) LogError = [LogError, LogError]"
    by (simp add: numeral_2_eq_2)
  note T = sink_failure_is_logged_and_ignored[OF h1 h2 h3 h4, of 500000000 True "[False, True, True, False]"]
  show ?thesis
    using T unfolding len nx n4 ti ev fl lg .
qed

lemma interpolateColor_defined:
  assumes "0 \<le> t" "t \<le> 1"
  shows "\<exists>c. interpolateColor c1 c2 t = Some c"
proof -
  from interpolateChannel_sound[OF assms, of "R c1" "R c2"] obtain r where
    r: "interpolateChannel (R c1) (R c2) t = Some r" by blast
  from interpolateChannel_sound[OF assms, of "G c1" "G c2"] obtain g where
    g: "interpolateChannel (G c1) (G c2) t = Some g" by blast
  from interpolateChannel_sound[OF assms, of "B c1" "B c2"] obtain b where
    b: "interpolateChannel (B c1) (B c2) t = Some b" by blast
  from interpolateChannel_sound[OF assms, of "A c1" "A c2"] obtain a where
    a: "interpolateChannel (A c1) (A c2) t = Some a" by blast
  show ?thesis using r g b a by (simp add: interpolateColor_def)
qed

lemma frame_t_unit:
  assumes "0 \<le> s" "s \<le> steps" "1 \<le> steps" "steps < 2 ^ 53"
  shows "\<exists>t. frame_t s steps = Some t \<and> fl64 (of_int s / of_int steps) = Some t \<and> 0 \<le> t \<and> t \<le> 1"
proof -
  have a: "float64_of_int s = Some (of_int s)"
    unfolding float64_of_int_def using assms by (intro fl64_of_int) simp
  have b: "float64_of_int steps = Some (of_int steps)"
    unfolding float64_of_int_def using assms by (intro fl64_of_int) simp
  have nz: "(of_int steps :: rat) \<noteq> 0" using assms(3) by simp
  have ft: "frame_t s steps = fl64 (of_int s / of_int steps)"
    using a b nz by (simp add: frame_t_def fdiv_def)
  have pos: "(0::rat) < of_int steps" using assms(3) by simp
  have q0: "(0::rat) \<le> of_int s / of_int steps" using assms(1) pos by simp
  have "(of_int s :: rat) \<le> of_int steps" using assms(2) by (simp only: of_int_le_iff)
  then have q1: "(of_int s :: rat) / of_int steps \<le> 1" using pos by simp
  from fl64_unit[OF q0 q1] show ?thesis using ft by auto
qed

lemma frame_t_half: "frame_t 0 2 = Some 0" "frame_t 1 2 = Some (1 / 2)" "frame_t 2 2 = Some 1"
  by code_simp+

lemma frame_color_bind:
  "frame_color track i t
     = Option.bind t (interpolateColor (track ! i) (track ! ((i + 1) mod length track)))"
  by (cases t) (simp_all add: frame_color_def)

text \<open>
  Claim C1. For two tracks of the same length, not empty, and at least one step per
  transition, the loop passes through the states \<open>(i, step)\<close> with \<open>step\<close> from 0 to
  \<open>stepsPerTransition\<close> inclusive inside \<open>i\<close> from 0 to \<open>len - 1\<close>, over and over: the
  \<open>n\<close>-th run of the \<^verbatim>\<open>borders\<close> command (counted from 0, for every \<open>n\<close>) is made in state
  \<open>(trackIndex n, subStep n)\<close>, with \<open>t = float64(step) / float64(stepsPerTransition)\<close> and
  the colours \<open>interpolateColor track[i] track[(i+1) mod len] t\<close> of the two tracks,
  printed by \<open>colorToHex\<close>. Below \<open>2^53\<close> steps \<open>t\<close> lies between 0 and 1 and both colours
  are defined. With two steps \<open>t\<close> runs through 0, 1/2, 1, 0, 1/2, 1 and so on.
\<close>

theorem animator_frames:
  assumes "colors a \<noteq> []" and "length (inactiveColors a) = length (colors a)"
    and "1 \<le> steps" and "n < length sink"
  shows "state_at (length (colors a)) steps n
           = (trackIndex (length (colors a)) steps n, subStep steps n)
     \<and> frames (animate a steps d sink) ! n
           = Borders
               (map_option (\<lambda>c. glow (activeGlow a) (colorToHex c))
                  (Option.bind (frame_t (subStep steps n) steps)
                     (interpolateColor (colors a ! trackIndex (length (colors a)) steps n)
                        (colors a ! ((trackIndex (length (colors a)) steps n + 1) mod length (colors a))))))
               (map_option (\<lambda>c. glow (inactiveGlow a) (colorToHex c))
                  (Option.bind (frame_t (subStep steps n) steps)
                     (interpolateColor (inactiveColors a ! trackIndex (length (colors a)) steps n)
                        (inactiveColors a ! ((trackIndex (length (colors a)) steps n + 1) mod length (colors a))))))
               (width a)
     \<and> 0 \<le> subStep steps n \<and> subStep steps n \<le> steps
     \<and> trackIndex (length (colors a)) steps n < length (colors a)
     \<and> (steps < 2 ^ 53 \<longrightarrow>
          (\<exists>t ca ci. frame_t (subStep steps n) steps = Some t
             \<and> fl64 (of_int (subStep steps n) / of_int steps) = Some t \<and> 0 \<le> t \<and> t \<le> 1
             \<and> interpolateColor (colors a ! trackIndex (length (colors a)) steps n)
                  (colors a ! ((trackIndex (length (colors a)) steps n + 1) mod length (colors a))) t = Some ca
             \<and> interpolateColor (inactiveColors a ! trackIndex (length (colors a)) steps n)
                  (inactiveColors a ! ((trackIndex (length (colors a)) steps n + 1) mod length (colors a))) t = Some ci
             \<and> frames (animate a steps d sink) ! n
                  = Borders (Some (glow (activeGlow a) (colorToHex ca)))
                      (Some (glow (inactiveGlow a) (colorToHex ci))) (width a)))
     \<and> (steps = 2 \<longrightarrow> frame_t (subStep steps n) steps = Some (of_nat (n mod 3) / 2))"
proof -
  let ?len = "length (colors a)"
  let ?i = "trackIndex ?len steps n" and ?s = "subStep steps n"
  have len: "0 < ?len" using assms(1) by simp
  have st0: "0 \<le> steps" using assms(3) by simp
  have st: "state_at ?len steps n = (?i, ?s)"
    using state_at_closed[OF len st0, of n] by (simp add: trackIndex_def subStep_def)
  have fr: "frames (animate a steps d sink) ! n = frame_of a steps (?i, ?s)"
    using animate_trace(2)[OF assms(1,2) st0, of d sink] assms(4) st by simp
  have fo: "frame_of a steps (?i, ?s)
      = Borders
          (map_option (\<lambda>c. glow (activeGlow a) (colorToHex c))
             (Option.bind (frame_t ?s steps)
                (interpolateColor (colors a ! ?i) (colors a ! ((?i + 1) mod ?len)))))
          (map_option (\<lambda>c. glow (inactiveGlow a) (colorToHex c))
             (Option.bind (frame_t ?s steps)
                (interpolateColor (inactiveColors a ! ?i) (inactiveColors a ! ((?i + 1) mod ?len)))))
          (width a)"
    by (simp add: frame_of_def frame_color_bind assms(2))
  have s0: "0 \<le> ?s" by (simp add: subStep_def)
  have "n mod (nat steps + 1) < nat steps + 1" by simp
  then have s1: "?s \<le> steps" using st0 unfolding subStep_def by linarith
  have i1: "?i < ?len" using len by (simp add: trackIndex_def)
  have defined: "\<exists>t ca ci. frame_t ?s steps = Some t
             \<and> fl64 (of_int ?s / of_int steps) = Some t \<and> 0 \<le> t \<and> t \<le> 1
             \<and> interpolateColor (colors a ! ?i) (colors a ! ((?i + 1) mod ?len)) t = Some ca
             \<and> interpolateColor (inactiveColors a ! ?i) (inactiveColors a ! ((?i + 1) mod ?len)) t = Some ci
             \<and> frames (animate a steps d sink) ! n
                  = Borders (Some (glow (activeGlow a) (colorToHex ca)))
                      (Some (glow (inactiveGlow a) (colorToHex ci))) (width a)"
    if small: "steps < 2 ^ 53"
  proof -
    from frame_t_unit[OF s0 s1 assms(3) small] obtain t where
      t: "frame_t ?s steps = Some t" "fl64 (of_int ?s / of_int steps) = Some t" "0 \<le> t" "t \<le> 1"
      by blast
    from interpolateColor_defined[OF t(3,4)] obtain ca where
      ca: "interpolateColor (colors a ! ?i) (colors a ! ((?i + 1) mod ?len)) t = Some ca" by blast
    from interpolateColor_defined[OF t(3,4)] obtain ci where
      ci: "interpolateColor (inactiveColors a ! ?i) (inactiveColors a ! ((?i + 1) mod ?len)) t = Some ci"
      by blast
    have "frames (animate a steps d sink) ! n
        = Borders (Some (glow (activeGlow a) (colorToHex ca)))
            (Some (glow (inactiveGlow a) (colorToHex ci))) (width a)"
      using fr fo t(1) ca ci by simp
    then show ?thesis using t ca ci by blast
  qed
  have two: "frame_t ?s steps = Some (of_nat (n mod 3) / 2)" if "steps = 2"
  proof -
    have s: "?s = int (n mod 3)" using that by (simp add: subStep_def)
    have "n mod 3 = 0 \<or> n mod 3 = 1 \<or> n mod 3 = 2" by linarith
    then show ?thesis using s that frame_t_half by auto
  qed
  show ?thesis using st fr fo s0 s1 i1 defined two by simp
qed

theorem animator_frames_witness:
  "colors red_blue \<noteq> [] \<and> length (inactiveColors red_blue) = length (colors red_blue)
     \<and> (1::int) \<le> 2 \<and> 4 < length [False, False, False, True, False] \<and> (2::int) < 2 ^ 53
     \<and> state_at (length (colors red_blue)) 2 4
           = (trackIndex (length (colors red_blue)) 2 4, subStep 2 4)
     \<and> (\<exists>t ca ci. frame_t (subStep 2 4) 2 = Some t
             \<and> fl64 (of_int (subStep 2 4) / of_int 2) = Some t \<and> 0 \<le> t \<and> t \<le> 1
             \<and> interpolateColor (colors red_blue ! trackIndex (length (colors red_blue)) 2 4)
                  (colors red_blue ! ((trackIndex (length (colors red_blue)) 2 4 + 1) mod length (colors red_blue))) t = Some ca
             \<and> interpolateColor (inactiveColors red_blue ! trackIndex (length (colors red_blue)) 2 4)
                  (inactiveColors red_blue ! ((trackIndex (length (colors red_blue)) 2 4 + 1) mod length (colors red_blue))) t = Some ci
             \<and> frames (animate red_blue 2 500000000 [False, False, False, True, False]) ! 4
                  = Borders (Some (glow (activeGlow red_blue) (colorToHex ca)))
                      (Some (glow (inactiveGlow red_blue) (colorToHex ci))) (width red_blue))
     \<and> frame_t (subStep 2 4) 2 = Some (of_nat (4 mod 3) / 2)"
proof -
  have h1: "colors red_blue \<noteq> []" by (simp add: red_blue_def)
  have h2: "length (inactiveColors red_blue) = length (colors red_blue)" by (simp add: red_blue_def)
  have h3: "(1::int) \<le> 2" by simp
  have h4: "4 < length [False, False, False, True, False]" by simp
  have h5: "(2::int) < 2 ^ 53" by simp
  note T = animator_frames[OF h1 h2 h3 h4, of 500000000]
  show ?thesis using T h1 h2 h3 h4 h5 by blast
qed

section \<open>parseColors and colorToHex\<close>

lemma split_base:
  fixes h l k :: int
  assumes "0 \<le> l" "l < k"
  shows "(h * k + l) div k = h" "(h * k + l) mod k = l"
  using assms by (simp_all add: div_pos_pos_trivial mod_pos_pos_trivial)

lemma nibbles_split:
  fixes v w :: int
  assumes "0 \<le> v" "v \<le> 15" "0 \<le> w" "w \<le> 15"
  shows "0 \<le> v * 16 + w" "v * 16 + w \<le> 255" "(v * 16 + w) div 16 = v" "(v * 16 + w) mod 16 = w"
proof -
  show "0 \<le> v * 16 + w" "v * 16 + w \<le> 255" using assms by linarith+
  have "w < 16" using assms by simp
  from split_base[OF assms(3) this] show "(v * 16 + w) div 16 = v" "(v * 16 + w) mod 16 = w" by simp_all
qed

lemma bytes_split:
  fixes b0 b1 b2 b3 :: int
  assumes "0 \<le> b0" "b0 \<le> 255" "0 \<le> b1" "b1 \<le> 255" "0 \<le> b2" "b2 \<le> 255" "0 \<le> b3" "b3 \<le> 255"
  shows "0 \<le> ((b0 * 256 + b1) * 256 + b2) * 256 + b3"
    and "((b0 * 256 + b1) * 256 + b2) * 256 + b3 < 4294967296"
    and "(((b0 * 256 + b1) * 256 + b2) * 256 + b3) div 16777216 = b0"
    and "((((b0 * 256 + b1) * 256 + b2) * 256 + b3) div 65536) mod 256 = b1"
    and "((((b0 * 256 + b1) * 256 + b2) * 256 + b3) div 256) mod 256 = b2"
    and "(((b0 * 256 + b1) * 256 + b2) * 256 + b3) mod 256 = b3"
proof -
  let ?N = "((b0 * 256 + b1) * 256 + b2) * 256 + b3"
  have ex: "?N = b0 * 16777216 + b1 * 65536 + b2 * 256 + b3" by (simp add: algebra_simps)
  show "0 \<le> ?N" unfolding ex using assms by linarith
  show "?N < 4294967296" unfolding ex using assms by linarith
  have ex3: "(b1 * 256 + b2) * 256 + b3 = b1 * 65536 + b2 * 256 + b3" by (simp add: algebra_simps)
  have l3: "0 \<le> (b1 * 256 + b2) * 256 + b3" "(b1 * 256 + b2) * 256 + b3 < 16777216"
    unfolding ex3 using assms by linarith+
  have "?N = b0 * 16777216 + ((b1 * 256 + b2) * 256 + b3)" by (simp add: algebra_simps)
  then show "?N div 16777216 = b0" using split_base(1)[OF l3] by simp
  have l2: "0 \<le> b2 * 256 + b3" "b2 * 256 + b3 < 65536" using assms by linarith+
  have "?N = (b0 * 256 + b1) * 65536 + (b2 * 256 + b3)" by (simp add: algebra_simps)
  then have "?N div 65536 = b0 * 256 + b1" using split_base(1)[OF l2] by simp
  moreover have "b1 < 256" using assms by simp
  ultimately show "(?N div 65536) mod 256 = b1" using split_base(2)[OF assms(3), of 256 b0] by simp
  have l1: "b3 < 256" using assms by simp
  have "?N div 256 = (b0 * 256 + b1) * 256 + b2" using split_base(1)[OF assms(7) l1] by simp
  moreover have "b2 < 256" using assms by simp
  ultimately show "(?N div 256) mod 256 = b2"
    using split_base(2)[OF assms(5), of 256 "b0 * 256 + b1"] by simp
  show "?N mod 256 = b3" by (rule split_base(2)[OF assms(7) l1])
qed

lemma hexadecimalDigits_all:
  "\<forall>ch \<in> set hexadecimalDigits.
     0 \<le> digitVal ch \<and> digitVal ch \<le> 15 \<and> hexUpper (nat (digitVal ch)) = upperHex ch
     \<and> ch \<noteq> CHR ''#'' \<and> ch \<noteq> CHR 0x0A
     \<and> (48::nat) \<le> of_char ch \<and> of_char ch \<le> (102::nat)"
  by code_simp

lemma digitVal_range: "isHexDigit ch \<Longrightarrow> 0 \<le> digitVal ch \<and> digitVal ch \<le> 15"
  using hexadecimalDigits_all unfolding isHexDigit_def by blast

lemma hexUpper_digitVal: "isHexDigit ch \<Longrightarrow> hexUpper (nat (digitVal ch)) = upperHex ch"
  using hexadecimalDigits_all unfolding isHexDigit_def by blast

lemma hex_not_special: "isHexDigit ch \<Longrightarrow> ch \<noteq> CHR ''#'' \<and> ch \<noteq> CHR 0x0A"
  using hexadecimalDigits_all unfolding isHexDigit_def by blast

lemma hex_code: "isHexDigit ch \<Longrightarrow> (48::nat) \<le> of_char ch \<and> of_char ch \<le> (102::nat)"
  using hexadecimalDigits_all unfolding isHexDigit_def by blast

lemma spaceWidth_hex: "isHexDigit ch \<Longrightarrow> spaceWidth (ch # r) = 0"
  using hex_code[of ch] by (simp add: spaceWidth_def split: list.splits)

lemma SkipSpace_hex: "isHexDigit ch \<Longrightarrow> SkipSpace (ch # r) = Some (ch # r)"
  using hex_not_special[of ch] spaceWidth_hex[of ch r] by simp

lemma and_255_int: "(k::int) AND 255 = k mod 256"
proof -
  have m: "(255::int) = mask 8" by (simp add: mask_eq_exp_minus_1)
  have "k AND mask 8 = take_bit 8 k" by (simp only: take_bit_eq_mask)
  then show ?thesis by (simp only: m take_bit_eq_mod) simp
qed

lemma uint_shift_byte:
  fixes N :: int
  assumes "0 \<le> N" "N < 4294967296"
  shows "uint (ucast (drop_bit 24 (word_of_int N :: 32 word)) :: 8 word) = (N div 16777216) mod 256"
    and "uint (ucast (drop_bit 16 (word_of_int N :: 32 word) AND 0xFF) :: 8 word) = ((N div 65536) mod 256) mod 256"
    and "uint (ucast (drop_bit 8 (word_of_int N :: 32 word) AND 0xFF) :: 8 word) = ((N div 256) mod 256) mod 256"
    and "uint (ucast ((word_of_int N :: 32 word) AND 0xFF) :: 8 word) = (N mod 256) mod 256"
proof -
  have u: "uint (word_of_int N :: 32 word) = N"
    using assms by (simp add: uint_word_of_int_eq take_bit_eq_mod)
  show "uint (ucast (drop_bit 24 (word_of_int N :: 32 word)) :: 8 word) = (N div 16777216) mod 256"
    by (simp add: unsigned_ucast_eq unsigned_drop_bit_eq uint_div_distrib u take_bit_eq_mod drop_bit_eq_div)
  show "uint (ucast (drop_bit 16 (word_of_int N :: 32 word) AND 0xFF) :: 8 word) = ((N div 65536) mod 256) mod 256"
    by (simp add: unsigned_ucast_eq unsigned_and_eq unsigned_drop_bit_eq uint_div_distrib u take_bit_eq_mod drop_bit_eq_div and_255_int)
  show "uint (ucast (drop_bit 8 (word_of_int N :: 32 word) AND 0xFF) :: 8 word) = ((N div 256) mod 256) mod 256"
    by (simp add: unsigned_ucast_eq unsigned_and_eq unsigned_drop_bit_eq uint_div_distrib u take_bit_eq_mod drop_bit_eq_div and_255_int)
  show "uint (ucast ((word_of_int N :: 32 word) AND 0xFF) :: 8 word) = (N mod 256) mod 256"
    by (simp add: unsigned_ucast_eq unsigned_and_eq u take_bit_eq_mod and_255_int)
qed

lemma fmt02X_nibbles:
  assumes "isHexDigit p" "isHexDigit q" "uint w = digitVal p * 16 + digitVal q"
  shows "fmt02X w = [upperHex p, upperHex q]"
proof -
  note rp = digitVal_range[OF assms(1)] and rq = digitVal_range[OF assms(2)]
  have ns: "(digitVal p * 16 + digitVal q) div 16 = digitVal p"
    "(digitVal p * 16 + digitVal q) mod 16 = digitVal q"
    using nibbles_split(3,4)[of "digitVal p" "digitVal q"] rp rq by simp_all
  have u: "unat w = nat (uint w)" by simp
  have "unat w div 16 = nat (uint w div 16)" unfolding u by (simp add: nat_div_distrib)
  then have d: "unat w div 16 = nat (digitVal p)" using assms(3) ns(1) by simp
  have "unat w mod 16 = nat (uint w mod 16)" unfolding u by (simp add: nat_mod_distrib)
  then have m: "unat w mod 16 = nat (digitVal q)" using assms(3) ns(2) by simp
  show ?thesis
    unfolding fmt02X_def d m by (simp only: hexUpper_digitVal[OF assms(1)] hexUpper_digitVal[OF assms(2)])
qed

lemma nibbles_to_bytes:
  fixes v0 v1 v2 v3 v4 v5 v6 v7 :: int
  shows "(((((((0 * 16 + v0) * 16 + v1) * 16 + v2) * 16 + v3) * 16 + v4) * 16 + v5) * 16 + v6) * 16 + v7
     = (((v0 * 16 + v1) * 256 + (v2 * 16 + v3)) * 256 + (v4 * 16 + v5)) * 256 + (v6 * 16 + v7)"
  by algebra

lemma ParseUint16_8:
  "ParseUint16 [d0, d1, d2, d3, d4, d5, d6, d7]
     = (((digitVal d0 * 16 + digitVal d1) * 256 + (digitVal d2 * 16 + digitVal d3)) * 256
         + (digitVal d4 * 16 + digitVal d5)) * 256 + (digitVal d6 * 16 + digitVal d7)"
  unfolding ParseUint16_def foldl.simps by (rule nibbles_to_bytes)

lemma Sscanf_08X_hex8:
  assumes h: "isHexDigit d0" "isHexDigit d1" "isHexDigit d2" "isHexDigit d3"
    "isHexDigit d4" "isHexDigit d5" "isHexDigit d6" "isHexDigit d7"
  shows "Sscanf_08X [d0, d1, d2, d3, d4, d5, d6, d7]
     = Some (word_of_int (ParseUint16 [d0, d1, d2, d3, d4, d5, d6, d7]))"
proof -
  have tw: "takeWhile isHexDigit (take 8 [d0, d1, d2, d3, d4, d5, d6, d7]) = [d0, d1, d2, d3, d4, d5, d6, d7]"
    using h by simp
  show ?thesis
    unfolding Sscanf_08X_def SkipSpace_hex[OF h(1)] option.case Let_def tw by simp
qed

lemma parseColor_hex8:
  assumes h: "isHexDigit d0" "isHexDigit d1" "isHexDigit d2" "isHexDigit d3"
    "isHexDigit d4" "isHexDigit d5" "isHexDigit d6" "isHexDigit d7"
  shows "\<exists>c. parseColor [d0, d1, d2, d3, d4, d5, d6, d7] = Inr c
     \<and> parseColor (CHR ''#'' # [d0, d1, d2, d3, d4, d5, d6, d7]) = Inr c
     \<and> uint (R c) = digitVal d0 * 16 + digitVal d1 \<and> uint (G c) = digitVal d2 * 16 + digitVal d3
     \<and> uint (B c) = digitVal d4 * 16 + digitVal d5 \<and> uint (A c) = digitVal d6 * 16 + digitVal d7
     \<and> colorToHex c = ''0x'' @ map upperHex [d6, d7, d0, d1, d2, d3, d4, d5]"
proof -
  define body where "body = [d0, d1, d2, d3, d4, d5, d6, d7]"
  define b0 where "b0 = digitVal d0 * 16 + digitVal d1"
  define b1 where "b1 = digitVal d2 * 16 + digitVal d3"
  define b2 where "b2 = digitVal d4 * 16 + digitVal d5"
  define b3 where "b3 = digitVal d6 * 16 + digitVal d7"
  define N where "N = ((b0 * 256 + b1) * 256 + b2) * 256 + b3"
  define val where "val = (word_of_int N :: 32 word)"
  define c where "c = \<lparr>R = ucast (drop_bit 24 val), G = ucast (drop_bit 16 val AND 0xFF),
             B = ucast (drop_bit 8 val AND 0xFF), A = ucast (val AND 0xFF)\<rparr>"
  note r = h[THEN digitVal_range]
  have r0: "0 \<le> b0" "b0 \<le> 255"
    unfolding b0_def using nibbles_split(1,2)[of "digitVal d0" "digitVal d1"] r by blast+
  have r1: "0 \<le> b1" "b1 \<le> 255"
    unfolding b1_def using nibbles_split(1,2)[of "digitVal d2" "digitVal d3"] r by blast+
  have r2: "0 \<le> b2" "b2 \<le> 255"
    unfolding b2_def using nibbles_split(1,2)[of "digitVal d4" "digitVal d5"] r by blast+
  have r3: "0 \<le> b3" "b3 \<le> 255"
    unfolding b3_def using nibbles_split(1,2)[of "digitVal d6" "digitVal d7"] r by blast+
  note bs = bytes_split[OF r0 r1 r2 r3, folded N_def]
  have pu: "ParseUint16 body = N"
    unfolding body_def N_def b0_def b1_def b2_def b3_def by (rule ParseUint16_8)
  have sc: "Sscanf_08X body = Some val"
    unfolding val_def pu[symmetric] body_def by (rule Sscanf_08X_hex8[OF h])
  have len: "length body = 8" by (simp add: body_def)
  have "take (length ''#'') body \<noteq> ''#''"
    using hex_not_special[OF h(1)] by (simp add: body_def)
  then have t1: "TrimPrefix body ''#'' = body" by (simp only: TrimPrefix_def if_False)
  have t2: "TrimPrefix (CHR ''#'' # body) ''#'' = body" by (simp add: TrimPrefix_def)
  have p1: "parseColor body = Inr c"
    unfolding parseColor_def t1 Let_def by (simp add: len sc c_def)
  have p2: "parseColor (CHR ''#'' # body) = Inr c"
    unfolding parseColor_def t2 Let_def by (simp add: len sc c_def)
  note us = uint_shift_byte[OF bs(1,2), folded val_def]
  have m0: "b0 mod 256 = b0" and m1: "b1 mod 256 = b1" and m2: "b2 mod 256 = b2" and m3: "b3 mod 256 = b3"
    using r0 r1 r2 r3 by simp_all
  have cr: "uint (R c) = b0" unfolding c_def color.simps us(1) bs(3) by (rule m0)
  have cg: "uint (G c) = b1" unfolding c_def color.simps us(2) bs(4) by (simp only: m1)
  have cb: "uint (B c) = b2" unfolding c_def color.simps us(3) bs(5) by (simp only: m2)
  have ca: "uint (A c) = b3" unfolding c_def color.simps us(4) bs(6) by (simp only: m3)
  have fa: "fmt02X (A c) = [upperHex d6, upperHex d7]"
    using ca unfolding b3_def by (rule fmt02X_nibbles[OF h(7) h(8)])
  have fr: "fmt02X (R c) = [upperHex d0, upperHex d1]"
    using cr unfolding b0_def by (rule fmt02X_nibbles[OF h(1) h(2)])
  have fg: "fmt02X (G c) = [upperHex d2, upperHex d3]"
    using cg unfolding b1_def by (rule fmt02X_nibbles[OF h(3) h(4)])
  have fb: "fmt02X (B c) = [upperHex d4, upperHex d5]"
    using cb unfolding b2_def by (rule fmt02X_nibbles[OF h(5) h(6)])
  have hex: "colorToHex c = ''0x'' @ map upperHex [d6, d7, d0, d1, d2, d3, d4, d5]"
    unfolding colorToHex_def fa fr fg fb by simp
  show ?thesis
    using p1 p2 cr cg cb ca hex unfolding body_def b0_def b1_def b2_def b3_def by blast
qed

lemma list_of_length_8:
  assumes "length body = 8"
  shows "\<exists>d0 d1 d2 d3 d4 d5 d6 d7. body = [d0, d1, d2, d3, d4, d5, d6, d7]"
  using assms by (auto simp: length_Suc_conv eval_nat_numeral)

lemma parseColors_single: "parseColor s = Inr c \<Longrightarrow> parseColors [s] = Inr [c]"
  by simp

text \<open>
  Claim C4. A string of eight hexadecimal digits, in either case and with or without a
  leading \<open>#\<close>, parses to the colour whose red, green, blue and alpha channels are its
  first, second, third and fourth pair of digits, and \<open>colorToHex\<close> prints that colour
  as \<open>0x\<close> followed by the alpha pair and then the red, green and blue pairs, in upper
  case.
\<close>

theorem parse_then_encode:
  assumes "length body = 8" and "\<forall>ch \<in> set body. isHexDigit ch"
    and "s = body \<or> s = CHR ''#'' # body"
  shows "\<exists>c. parseColors [s] = Inr [c]
     \<and> uint (R c) = ParseUint16 (take 2 body) \<and> uint (G c) = ParseUint16 (take 2 (drop 2 body))
     \<and> uint (B c) = ParseUint16 (take 2 (drop 4 body)) \<and> uint (A c) = ParseUint16 (drop 6 body)
     \<and> colorToHex c = ''0x'' @ map upperHex (drop 6 body @ take 6 body)"
proof -
  from list_of_length_8[OF assms(1)] obtain d0 d1 d2 d3 d4 d5 d6 d7 where
    body: "body = [d0, d1, d2, d3, d4, d5, d6, d7]" by blast
  have h: "isHexDigit d0" "isHexDigit d1" "isHexDigit d2" "isHexDigit d3"
    "isHexDigit d4" "isHexDigit d5" "isHexDigit d6" "isHexDigit d7"
    using assms(2) body by simp_all
  from parseColor_hex8[OF h] obtain c where
    c: "parseColor body = Inr c" "parseColor (CHR ''#'' # body) = Inr c"
      "uint (R c) = digitVal d0 * 16 + digitVal d1" "uint (G c) = digitVal d2 * 16 + digitVal d3"
      "uint (B c) = digitVal d4 * 16 + digitVal d5" "uint (A c) = digitVal d6 * 16 + digitVal d7"
      "colorToHex c = ''0x'' @ map upperHex [d6, d7, d0, d1, d2, d3, d4, d5]"
    unfolding body by blast
  have "parseColor s = Inr c" using assms(3) c(1,2) by blast
  then have p: "parseColors [s] = Inr [c]" by (rule parseColors_single)
  have two: "ParseUint16 [x, y] = digitVal x * 16 + digitVal y" for x y
    by (simp add: ParseUint16_def)
  have "uint (R c) = ParseUint16 (take 2 body)" "uint (G c) = ParseUint16 (take 2 (drop 2 body))"
    "uint (B c) = ParseUint16 (take 2 (drop 4 body))" "uint (A c) = ParseUint16 (drop 6 body)"
    using c(3-6) by (simp_all add: body two)
  moreover have "colorToHex c = ''0x'' @ map upperHex (drop 6 body @ take 6 body)"
    using c(7) by (simp add: body)
  ultimately show ?thesis using p by blast
qed

theorem parse_then_encode_witness:
  "length ''ff00a0Fe'' = 8 \<and> list_all isHexDigit ''ff00a0Fe''
     \<and> (\<exists>c. parseColors [''#ff00a0Fe''] = Inr [c]
     \<and> uint (R c) = ParseUint16 (take 2 ''ff00a0Fe'') \<and> uint (G c) = ParseUint16 (take 2 (drop 2 ''ff00a0Fe''))
     \<and> uint (B c) = ParseUint16 (take 2 (drop 4 ''ff00a0Fe'')) \<and> uint (A c) = ParseUint16 (drop 6 ''ff00a0Fe'')
     \<and> colorToHex c = ''0x'' @ map upperHex (drop 6 ''ff00a0Fe'' @ take 6 ''ff00a0Fe''))"
proof -
  have h1: "length ''ff00a0Fe'' = 8" by simp
  have h2: "\<forall>ch \<in> set ''ff00a0Fe''. isHexDigit ch"
    by (simp add: isHexDigit_def hexadecimalDigits_def)
  have h3: "''#ff00a0Fe'' = ''ff00a0Fe'' \<or> ''#ff00a0Fe'' = CHR ''#'' # ''ff00a0Fe''" by simp
  have h2': "list_all isHexDigit ''ff00a0Fe''" using h2 by (simp only: list_all_iff)
  show ?thesis using parse_then_encode[OF h1 h2 h3] h1 h2' by blast
qed

lemma parseColor_InvalidFormat_iff:
  "(\<exists>m. parseColor s = Inl (InvalidFormat m)) \<longleftrightarrow> length (TrimPrefix s ''#'') \<noteq> 8"
  by (auto simp: parseColor_def Let_def split: option.splits)

text \<open>
  Claim C3 says that \<open>parseColors\<close> fails with the invalid-value error exactly when the
  eight characters are not all hexadecimal digits. The code calls \<^verbatim>\<open>fmt.Sscanf\<close>, which
  stops at the first character that is no digit and reports no error: \<open>#12345G78\<close> is
  accepted, and read as the number \<open>0x12345\<close>. (The two other parts of the claim hold:
  the invalid-format error is \<open>parseColor_InvalidFormat_iff\<close>, and success on eight
  hexadecimal digits is part of the theorem of claim C4.)
\<close>

theorem parseColors_accepts_non_hex:
  "parseColors [''#12345G78''] = Inr [\<lparr>R = 0x00, G = 0x01, B = 0x23, A = 0x45\<rparr>]
     \<and> length ''12345G78'' = 8 \<and> \<not> isHexDigit CHR ''G''"
  by code_simp

section \<open>Start-up: the number of steps and the delay\<close>


















lemma steps_rounded_up:
  "stepsPerTransition_of (config_of rgbw [] secs_0_7 30) = Some 21" "\<lfloor>secs_0_7 * 30\<rfloor> = 20"
  by code_simp+




end
